theory Spec2Isabelle
  imports Main
begin

section \<open>Data model\<close>

text \<open>
  The indexer of \<^verbatim>\<open>indexer/indexer.go\<close> scans the blocks of a chain and runs a list of
  block actions on each block. Heights are Go \<^verbatim>\<open>int64\<close> values; no arithmetic is done on
  them by the engine, so they are modelled as integers. A Go \<^verbatim>\<open>error\<close> is an opaque value:
  \<open>Canceled\<close> stands for \<^verbatim>\<open>ctx.Err()\<close> of a context that is done, \<open>Failure\<close> for every other
  error, carrying its message.
\<close>

type_synonym height = int

datatype error = Canceled | Failure string

text \<open>
  A call either returns (an error, or \<^verbatim>\<open>nil\<close>) or panics. A panic that nothing recovers
  ends the whole process.
\<close>

datatype outcome = Returns "error option" | Panics

text \<open>
  The messages the IBC action tells apart (the type switch of \<^verbatim>\<open>HandleIBCMsg\<close>), with the
  fields it reads, in the order of the source: for \<^verbatim>\<open>MsgTransfer\<close> the sender, the receiver,
  the token's amount and denomination, the source channel, the source port and what
  \<^verbatim>\<open>Route()\<close> returns; for the three packet messages the signer, the packet's source and
  destination channel and its source and destination port.
\<close>

datatype msg =
    MsgTransfer string string string string string string string
  | MsgRecvPacket string string string string string
  | MsgTimeout string string string string string
  | MsgAcknowledgement string string string string string
  | OtherMsg

text \<open>
  The parts of a decoded transaction that the IBC action reads: its messages and, when
  the dynamic type of the \<^verbatim>\<open>sdk.Tx\<close> implements \<^verbatim>\<open>sdk.FeeTx\<close>, the coins \<^verbatim>\<open>GetFee()\<close>
  returns (amount and denomination, both already rendered as strings). \<open>FeeTx\<close> is \<open>None\<close>
  for a transaction whose type does not implement the interface.
\<close>

record sdk_tx =
  GetMsgs :: "msg list"
  FeeTx :: "(string \<times> string) list option"

text \<open>\<^verbatim>\<open>txRes.TxResult\<close>, as far as it is read.\<close>

record tx_result =
  Code :: nat
  Log :: string
  GasUsed :: int
  GasWanted :: int

text \<open>A raw transaction is the byte string found in the block; the block's time is
  kept as a number.\<close>

type_synonym raw_tx = string

record block =
  Height :: height
  Time :: nat
  Txs :: "raw_tx list"

text \<open>
  The rows the IBC action hands to \<^verbatim>\<open>DB.Create\<close> (\<^verbatim>\<open>ibc_models.go\<close>), with the fields the
  action fills, in the order of the struct. \<^verbatim>\<open>tx.Hash()\<close> is a function of the raw
  transaction; the model keeps the transaction where the source keeps its hash.
  \<open>TxRow\<close>: hash, timestamp, chain id, block height, raw log, code, fee amount, fee
  denomination, gas used, gas wanted. The message rows: hash, message index, then the
  strings of the message.
\<close>

datatype row =
    TxRow raw_tx nat string height string nat string string int int
  | MsgTransferRow raw_tx nat string string string string string string string string
  | MsgRecvPacketRow raw_tx nat string string string string string
  | MsgTimeoutRow raw_tx nat string string string string string
  | MsgAcknowledgementRow raw_tx nat string string string string string

text \<open>
  \<^verbatim>\<open>Indexer\<close> is the access point to the chain client and the database. Every call that
  leaves the process is a field of the record, so that a theorem can quantify over what
  the node and the database answer:
  \<^item> \<open>RPC_Block h k\<close> is the answer of \<^verbatim>\<open>i.Client.RPCClient.Block(egCtx, &h)\<close> when \<open>k\<close> calls
    of it were made before in this run;
  \<^item> \<open>TxDecoder\<close>, \<open>QueryTx\<close> are \<^verbatim>\<open>Client.Codec.TxConfig.TxDecoder()\<close> and \<^verbatim>\<open>Client.QueryTx\<close>;
  \<^item> \<open>Bytea_Set\<close>, \<open>Timestamp_Set\<close>, \<open>JSONB_Set\<close> are the \<^verbatim>\<open>Set\<close> methods of the pgtype values;
  \<^item> \<open>DB_Create\<close>, \<open>DB_AutoMigrate\<close> are the two gorm calls.
\<close>

record indexer =
  ChainID :: string
  RPC_Block :: "height \<Rightarrow> nat \<Rightarrow> error + block"
  TxDecoder :: "raw_tx \<Rightarrow> error + sdk_tx"
  QueryTx :: "raw_tx \<Rightarrow> error + tx_result"
  Bytea_Set :: "raw_tx \<Rightarrow> error option"
  Timestamp_Set :: "nat \<Rightarrow> error option"
  JSONB_Set :: "string \<Rightarrow> error option"
  DB_Create :: "row \<Rightarrow> error option"
  DB_AutoMigrate :: "error option"

text \<open>
  \<^verbatim>\<open>BlockAction\<close> is a Go interface with three methods. An implementation is a record of
  the three; \<open>Execute a done ix b\<close> is \<^verbatim>\<open>a.Execute(ctx, ix, b)\<close> where \<open>done\<close> tells whether
  \<^verbatim>\<open>ctx\<close> is done when the call is made.
\<close>

record block_action =
  Name :: string
  MigrateSchema :: "indexer \<Rightarrow> error option"
  Execute :: "bool \<Rightarrow> indexer \<Rightarrow> block \<Rightarrow> outcome"

section \<open>The retry parameters\<close>

text \<open>
  \<^verbatim>\<open>RtyAttNum = uint(5)\<close>, \<^verbatim>\<open>RtyDel = retry.Delay(time.Millisecond * 400)\<close> and
  \<^verbatim>\<open>RtyErr = retry.LastErrorOnly(true)\<close>; delays are in milliseconds.
\<close>

definition RtyAttNum :: nat where
  "RtyAttNum = 5"

definition RtyDel :: nat where
  "RtyDel = 400"


text \<open>
  Modelled from the spec: \<^verbatim>\<open>retry.BackOffDelay\<close> of the module
  \<^verbatim>\<open>github.com/avast/retry-go/v4\<close>, which is not under the sources. The spec (4.4) has each
  successive delay double the previous one, starting from the base delay.
\<close>

definition BackOffDelay :: "nat \<Rightarrow> nat" where
  "BackOffDelay n = RtyDel * 2 ^ n"

section \<open>The indexing engine: \<^verbatim>\<open>ForEachBlock\<close>\<close>

text \<open>
  \<^verbatim>\<open>ForEachBlock\<close> starts one goroutine per height and the goroutines share a mutex, a
  slice, a channel and an error group. The model is an interleaving semantics: a state
  of the call, one atomic step for each statement that reads or writes shared state or
  can block, and a schedule that says which goroutine moves next. A step that cannot be
  taken (a \<^verbatim>\<open>Lock\<close> on a locked mutex, a send on a full channel, a receive on an empty one,
  \<^verbatim>\<open>Wait\<close> before every goroutine has returned) is \<open>None\<close>.

  Where a goroutine stands, by line of \<^verbatim>\<open>indexer.go\<close>:
  \<^item> \<open>Attempt n\<close>: inside \<^verbatim>\<open>retry.Do\<close>, about to call the function of lines 76-79 for the
    attempt numbered \<open>n\<close> from 0;
  \<^item> \<open>Backoff n e\<close>: inside \<^verbatim>\<open>retry.Do\<close>, attempt \<open>n\<close> failed with \<open>e\<close>, waiting for the delay or
    for the context;
  \<^item> \<open>FailLock e\<close>: \<^verbatim>\<open>retry.Do\<close> returned \<open>e\<close>, at \<^verbatim>\<open>mutex.Lock()\<close> of line 90;
  \<^item> \<open>FailAppend e\<close>: at line 92;
  \<^item> \<open>FailDeferred e\<close>: the closure of lines 89-93 returns and runs what line 91 deferred,
    which is \<^verbatim>\<open>mutex.Lock()\<close>;
  \<^item> \<open>FailRecv e\<close>: at \<^verbatim>\<open><-sem\<close> of line 95;
  \<^item> \<open>FailReturn e\<close>: at \<^verbatim>\<open>return err\<close> of line 96;
  \<^item> \<open>Acting k\<close>: in the loop of lines 100-110, about to execute the action of index \<open>k\<close>;
    with \<open>k\<close> past the last action, at \<^verbatim>\<open><-sem\<close> of line 112. A block that is \<^verbatim>\<open>nil\<close> there
    would be dereferenced, which panics; the variable is assigned by then in every state the
    call reaches (lemma \<open>acting_has_block\<close>);
  \<^item> \<open>OkReturn\<close>: at \<^verbatim>\<open>return nil\<close> of line 113;
  \<^item> \<open>Exited r\<close>: the goroutine has returned \<open>r\<close> to the error group.
\<close>

datatype pc =
    Attempt nat
  | Backoff nat error
  | FailLock error
  | FailAppend error
  | FailDeferred error
  | FailRecv error
  | FailReturn error
  | Acting nat
  | OkReturn
  | Exited "error option"

text \<open>
  What a goroutine did, in order: the calls of the fetch port with their result, the
  delays \<^verbatim>\<open>retry.Do\<close> slept, the calls of \<^verbatim>\<open>Execute\<close> with the action's name, the block and
  the result, and the warning of lines 103-108.
\<close>

datatype event =
    CallBlock height "error option"
  | Delay nat
  | CallExecute string block "error option"
  | WarnFailedToExecute string height error

text \<open>
  A goroutine: \<open>t_h\<close> is its copy of the loop variable (line 69), \<open>t_block\<close> the variable of
  line 73.
\<close>

record task =
  t_h :: height
  t_block :: "block option"
  t_pc :: pc
  t_log :: "event list"

text \<open>
  The caller's goroutine: in the loop of lines 68-115 with the heights still to launch,
  in \<^verbatim>\<open>eg.Wait()\<close> of line 116, or returned.
\<close>

datatype main_pc = Launch "height list" | Waiting | Returned "error option"

text \<open>
  The state of one call of \<^verbatim>\<open>ForEachBlock\<close>. \<open>depth\<close> counts the recursive calls of line 122
  that were entered; \<open>mutex\<close>, \<open>failedBlocks\<close>, \<open>sem\<close> (the number of values in the channel)
  and \<open>eg_err\<close> (the error group's first error) are the locals of lines 56-61 of the
  innermost call, \<open>tasks\<close> its goroutines. \<open>ctx_cancelled\<close> says whether the caller's context
  is done, \<open>rpc_calls\<close> counts the calls of the fetch port, \<open>crashed\<close> is set by a panic.
\<close>

record state =
  depth :: nat
  mpc :: main_pc
  mutex :: bool
  failedBlocks :: "height list"
  sem :: nat
  eg_err :: "error option"
  ctx_cancelled :: bool
  tasks :: "task list"
  rpc_calls :: nat
  crashed :: bool

text \<open>The receiver and the arguments of the call that stay the same in every pass.\<close>

record call =
  ix :: indexer
  actions :: "block_action list"
  concurrentBlocks :: nat

text \<open>
  \<^verbatim>\<open>egCtx\<close> comes from \<^verbatim>\<open>errgroup.WithContext(ctx)\<close>: it is done when \<^verbatim>\<open>ctx\<close> is done or a
  goroutine of the group has returned an error.
\<close>

definition egCtx_done :: "state \<Rightarrow> bool" where
  "egCtx_done s = (ctx_cancelled s \<or> eg_err s \<noteq> None)"

definition goto :: "pc \<Rightarrow> event list \<Rightarrow> task \<Rightarrow> task" where
  "goto p evs t = t\<lparr>t_pc := p, t_log := t_log t @ evs\<rparr>"

definition put :: "nat \<Rightarrow> task \<Rightarrow> state \<Rightarrow> state" where
  "put i t s = s\<lparr>tasks := (tasks s)[i := t]\<rparr>"

text \<open>
  Modelled from the spec: \<^verbatim>\<open>retry.Do\<close> (module \<^verbatim>\<open>github.com/avast/retry-go/v4\<close>) is not under
  the sources. From the spec, 4.3 step 3, 4.4 and 5: the function is attempted at most
  \<^verbatim>\<open>Attempts\<close> times; after a failed attempt that is not the last, the wrapper sleeps the
  back-off delay, and a context that is done ends the wait at once with the context's
  error; after the last attempt the wrapper returns that attempt's error
  (\<^verbatim>\<open>LastErrorOnly\<close>). \<open>retry_failed n e\<close> is where the goroutine goes when attempt \<open>n\<close> has
  failed with \<open>e\<close>: to line 88 with the error returned, or into the wait. \<open>retry_wait d n\<close> is
  how the wait after attempt \<open>n\<close> ends when the context is done (\<open>d\<close>) or not. The \<^verbatim>\<open>OnRetry\<close>
  callback of lines 80-87 only writes a log line and is left out.
\<close>

definition retry_failed :: "nat \<Rightarrow> error \<Rightarrow> pc" where
  "retry_failed n e = (if n = RtyAttNum - 1 then FailLock e else Backoff n e)"

definition retry_wait :: "bool \<Rightarrow> nat \<Rightarrow> pc \<times> event list" where
  "retry_wait d n =
     (if d then (FailLock Canceled, []) else (Attempt (Suc n), [Delay (BackOffDelay n)]))"

text \<open>
  One step of the goroutine of index \<open>i\<close>, by where it stands. Lines 76-87 are the call
  of \<^verbatim>\<open>retry.Do\<close> around the fetch; lines 88-97 the failure path; lines 99-113 the actions.
\<close>

definition task_step :: "call \<Rightarrow> nat \<Rightarrow> state \<Rightarrow> state option" where
  "task_step c i s =
     (if i < length (tasks s) then
        (let t = tasks s ! i in
         case t_pc t of
           Attempt n \<Rightarrow>
             (case RPC_Block (ix c) (t_h t) (rpc_calls s) of
                Inr b \<Rightarrow>
                  Some ((put i ((goto (Acting 0) [CallBlock (t_h t) None] t)\<lparr>t_block := Some b\<rparr>) s)
                    \<lparr>rpc_calls := Suc (rpc_calls s)\<rparr>)
              | Inl e \<Rightarrow>
                  Some ((put i (goto (retry_failed n e) [CallBlock (t_h t) (Some e)] t) s)
                    \<lparr>rpc_calls := Suc (rpc_calls s)\<rparr>))
         | Backoff n e \<Rightarrow>
             Some (put i (goto (fst (retry_wait (egCtx_done s) n))
                            (snd (retry_wait (egCtx_done s) n)) t) s)
         | FailLock e \<Rightarrow>
             (if mutex s then None
              else Some ((put i (goto (FailAppend e) [] t) s)\<lparr>mutex := True\<rparr>))
         | FailAppend e \<Rightarrow>
             Some ((put i (goto (FailDeferred e) [] t) s)
               \<lparr>failedBlocks := failedBlocks s @ [t_h t]\<rparr>)
         | FailDeferred e \<Rightarrow>
             (if mutex s then None
              else Some ((put i (goto (FailRecv e) [] t) s)\<lparr>mutex := True\<rparr>))
         | FailRecv e \<Rightarrow>
             (if sem s = 0 then None
              else Some ((put i (goto (FailReturn e) [] t) s)\<lparr>sem := sem s - 1\<rparr>))
         | FailReturn e \<Rightarrow>
             Some ((put i (goto (Exited (Some e)) [] t) s)
               \<lparr>eg_err := (case eg_err s of None \<Rightarrow> Some e | Some e' \<Rightarrow> Some e')\<rparr>)
         | Acting k \<Rightarrow>
             (if k < length (actions c) then
                (case t_block t of
                   None \<Rightarrow> Some (s\<lparr>crashed := True\<rparr>)
                 | Some b \<Rightarrow>
                     (case Execute (actions c ! k) (egCtx_done s) (ix c) b of
                        Panics \<Rightarrow> Some (s\<lparr>crashed := True\<rparr>)
                      | Returns None \<Rightarrow>
                          Some (put i (goto (Acting (Suc k))
                                  [CallExecute (Name (actions c ! k)) b None] t) s)
                      | Returns (Some e) \<Rightarrow>
                          Some (put i (goto (Acting (Suc k))
                                  [CallExecute (Name (actions c ! k)) b (Some e),
                                   WarnFailedToExecute (Name (actions c ! k)) (Height b) e] t) s)))
              else if sem s = 0 then None
              else Some ((put i (goto OkReturn [] t) s)\<lparr>sem := sem s - 1\<rparr>))
         | OkReturn \<Rightarrow> Some (put i (goto (Exited None) [] t) s)
         | Exited r \<Rightarrow> None)
      else None)"

text \<open>
  A recursive call of line 122 gets fresh locals (lines 56-61); what it returns is what
  the caller returns, so the caller's frame needs no record.
\<close>

definition enter :: "height list \<Rightarrow> state \<Rightarrow> state" where
  "enter blocks s =
     s\<lparr>depth := Suc (depth s), mpc := Launch blocks, mutex := False, failedBlocks := [],
       sem := 0, eg_err := None, tasks := []\<rparr>"

definition exited :: "task \<Rightarrow> bool" where
  "exited t = (case t_pc t of Exited r \<Rightarrow> True | _ \<Rightarrow> False)"

text \<open>
  One step of the caller's goroutine. A send on \<^verbatim>\<open>sem\<close> (line 70) goes through when the
  channel holds fewer than \<^verbatim>\<open>concurrentBlocks\<close> values; with a capacity of 0 the channel is
  unbuffered, a send needs a receiver that is ready, and the only receivers are
  goroutines that a completed send has started, so the send is never taken. The send
  and \<^verbatim>\<open>eg.Go\<close> (line 72) are one step, since \<^verbatim>\<open>eg.Go\<close> does not block.
\<close>

definition main_step :: "call \<Rightarrow> state \<Rightarrow> state option" where
  "main_step c s =
     (case mpc s of
        Launch [] \<Rightarrow> Some (s\<lparr>mpc := Waiting\<rparr>)
      | Launch (h # hs) \<Rightarrow>
          (if sem s < concurrentBlocks c then
             Some (s\<lparr>mpc := Launch hs, sem := Suc (sem s),
                     tasks := tasks s @ [\<lparr>t_h = h, t_block = None, t_pc = Attempt 0, t_log = []\<rparr>]\<rparr>)
           else None)
      | Waiting \<Rightarrow>
          (if list_all exited (tasks s) then
             (case eg_err s of
                Some e \<Rightarrow> Some (s\<lparr>mpc := Returned (Some e)\<rparr>)
              | None \<Rightarrow>
                  (if 0 < length (failedBlocks s) then Some (enter (failedBlocks s) s)
                   else Some (s\<lparr>mpc := Returned None\<rparr>)))
           else None)
      | Returned r \<Rightarrow> None)"

text \<open>
  Who moves: the caller's goroutine, the goroutine of index \<open>i\<close>, or the environment
  cancelling the caller's context. Nothing moves after a panic.
\<close>

datatype actor = MainG | TaskG nat | CancelCtx

definition step :: "call \<Rightarrow> actor \<Rightarrow> state \<Rightarrow> state option" where
  "step c a s =
     (if crashed s then None
      else case a of
        MainG \<Rightarrow> main_step c s
      | TaskG i \<Rightarrow> task_step c i s
      | CancelCtx \<Rightarrow> (if ctx_cancelled s then None else Some (s\<lparr>ctx_cancelled := True\<rparr>)))"

fun run :: "call \<Rightarrow> actor list \<Rightarrow> state \<Rightarrow> state option" where
  "run c [] s = Some s"
| "run c (a # sched) s = (case step c a s of None \<Rightarrow> None | Some s' \<Rightarrow> run c sched s')"

definition init :: "height list \<Rightarrow> state" where
  "init blocks =
     \<lparr>depth = 0, mpc = Launch blocks, mutex = False, failedBlocks = [], sem = 0,
      eg_err = None, ctx_cancelled = False, tasks = [], rpc_calls = 0, crashed = False\<rparr>"

text \<open>
  \<open>ForEachBlock c blocks sched\<close> is the state that the call reaches when its goroutines
  move as \<open>sched\<close> says, or \<open>None\<close> when \<open>sched\<close> asks for a step that cannot be taken.
\<close>

definition ForEachBlock :: "call \<Rightarrow> height list \<Rightarrow> actor list \<Rightarrow> state option" where
  "ForEachBlock c blocks sched = run c sched (init blocks)"

section \<open>The IBC transfer action\<close>

text \<open>
  \<^verbatim>\<open>HandleIBCMsg\<close> (\<^verbatim>\<open>ibc.go\<close>): one row for each of the four IBC messages, none for any other
  message. A failure of \<^verbatim>\<open>TxHash.Set\<close> or of \<^verbatim>\<open>DB.Create\<close> is logged and nothing else, so the
  model returns the rows handed to \<^verbatim>\<open>DB.Create\<close>.
\<close>

fun HandleIBCMsg :: "raw_tx \<Rightarrow> nat \<Rightarrow> msg \<Rightarrow> row list" where
  "HandleIBCMsg tx msgIndex (MsgTransfer sender receiver amount denom srcChannel srcPort route) =
     [MsgTransferRow tx msgIndex sender sender receiver amount denom srcChannel srcPort route]"
| "HandleIBCMsg tx msgIndex (MsgRecvPacket signer srcChannel dstChannel srcPort dstPort) =
     [MsgRecvPacketRow tx msgIndex signer srcChannel dstChannel srcPort dstPort]"
| "HandleIBCMsg tx msgIndex (MsgTimeout signer srcChannel dstChannel srcPort dstPort) =
     [MsgTimeoutRow tx msgIndex signer srcChannel dstChannel srcPort dstPort]"
| "HandleIBCMsg tx msgIndex (MsgAcknowledgement signer srcChannel dstChannel srcPort dstPort) =
     [MsgAcknowledgementRow tx msgIndex signer srcChannel dstChannel srcPort dstPort]"
| "HandleIBCMsg tx msgIndex OtherMsg = []"

text \<open>The raw log of line 154: \<^verbatim>\<open>fmt.Sprintf("{\"error\":\"%s\"}", log)\<close>.\<close>

definition error_log :: "string \<Rightarrow> string" where
  "error_log l =
     ''{'' @ [CHR 0x22] @ ''error'' @ [CHR 0x22] @ '':'' @ [CHR 0x22] @ l @ [CHR 0x22] @ ''}''"

text \<open>
  The loop of \<^verbatim>\<open>IndexIBCTransfers\<close> (\<^verbatim>\<open>ibc.go\<close>, lines 61-120 of the function) over the
  transactions still to visit, for a block of height \<open>h\<close> and time \<open>t\<close>. The result is how
  the function ends and the rows it handed to \<^verbatim>\<open>DB.Create\<close> until then. \<open>done\<close> says whether
  the context is done; the call is one step of the engine, so it is the same at every
  iteration. Every \<^verbatim>\<open>continue\<close> of the source is a recursive call on the rest; the type
  assertion \<^verbatim>\<open>sdkTx.(sdk.FeeTx)\<close> of line 105 has no second result, so it panics when the
  type does not implement the interface.
\<close>

fun index_txs :: "bool \<Rightarrow> indexer \<Rightarrow> height \<Rightarrow> nat \<Rightarrow> raw_tx list \<Rightarrow> outcome \<times> row list" where
  "index_txs done i h t [] = (Returns None, [])"
| "index_txs done i h t (tx # txs) =
     (if done then (Returns (Some Canceled), [])
      else case TxDecoder i tx of
        Inl err \<Rightarrow> index_txs done i h t txs
      | Inr sdkTx \<Rightarrow>
          (case QueryTx i tx of
             Inl err \<Rightarrow> index_txs done i h t txs
           | Inr txRes \<Rightarrow>
               (case FeeTx sdkTx of
                  None \<Rightarrow> (Panics, [])
                | Some fee \<Rightarrow>
                    (if Bytea_Set i tx \<noteq> None then index_txs done i h t txs
                     else if Timestamp_Set i t \<noteq> None then index_txs done i h t txs
                     else if JSONB_Set i (if Code txRes > 0 then error_log (Log txRes)
                                          else Log txRes) \<noteq> None
                       then index_txs done i h t txs
                     else
                       (fst (index_txs done i h t txs),
                        TxRow tx t (ChainID i) h
                          (if Code txRes > 0 then error_log (Log txRes) else Log txRes)
                          (Code txRes)
                          (if length fee = 0 then ''0'' else fst (hd fee))
                          (if length fee = 0 then [] else snd (hd fee))
                          (GasUsed txRes) (GasWanted txRes)
                        # concat (map (\<lambda>(k, m). HandleIBCMsg tx k m)
                                   (enumerate 0 (GetMsgs sdkTx)))
                        @ snd (index_txs done i h t txs))))))"

definition IndexIBCTransfers :: "bool \<Rightarrow> indexer \<Rightarrow> block \<Rightarrow> outcome \<times> row list" where
  "IndexIBCTransfers done i b = index_txs done i (Height b) (Time b) (Txs b)"

text \<open>\<^verbatim>\<open>BlockActionName\<close>, and the action \<^verbatim>\<open>NewIBCTransfer\<close> builds: \<^verbatim>\<open>MigrateSchema\<close> is
  \<^verbatim>\<open>indexer.DB.AutoMigrate\<close>, \<^verbatim>\<open>Execute\<close> is \<^verbatim>\<open>IndexIBCTransfers\<close>.\<close>

definition BlockActionName :: string where
  "BlockActionName = ''ics20_transfers''"

definition NewIBCTransfer :: block_action where
  "NewIBCTransfer =
     \<lparr>Name = BlockActionName,
      MigrateSchema = (\<lambda>i. DB_AutoMigrate i),
      Execute = (\<lambda>done i b. fst (IndexIBCTransfers done i b))\<rparr>"

section \<open>The start command\<close>

text \<open>\<^verbatim>\<open>GetBlockActionByName\<close> (\<^verbatim>\<open>cmd/actions.go\<close>): the only registered name is
  \<^verbatim>\<open>ibc.BlockActionName\<close>.\<close>

definition GetBlockActionByName :: "string \<Rightarrow> error + block_action" where
  "GetBlockActionByName name =
     (if name = BlockActionName then Inr NewIBCTransfer
      else Inl (Failure (''there is no block action configured with the name '' @ name)))"

text \<open>
  What the command reads from outside, each with the error it may return: the flags, the
  chain's configuration, the client, the database, the debug listener, the latest
  height, and the names under \<^verbatim>\<open>actions\<close> in the configuration file. \<open>the_indexer\<close> is the
  indexer that \<^verbatim>\<open>NewIndexer\<close> builds from the client and the database.
\<close>

record start_env =
  flagConcurrentBlocks :: "error + nat"
  GetChainConfig :: "error option"
  NewChainClient :: "error option"
  ConnectToDatabase :: "error option"
  the_indexer :: indexer
  flagDebugAddr :: "error + string"
  Listen :: "error option"
  flagBeginBlock :: "error + int"
  flagEndBlock :: "error + int"
  QueryLatestHeight :: "error + int"
  Config_Actions :: "string list"

text \<open>The lines the command logs about the actions and the debug server.\<close>

datatype log_line =
    FailedToGetBlockAction string
  | SkippingDebugServer
  | FailedToListen
  | DebugServerListening string

text \<open>
  Lines 91-112 of \<^verbatim>\<open>cmd/start.go\<close>: the two height flags, the latest height when the end
  flag is 0, and the heights \<open>beginBlock\<close>, ..., \<open>endBlock - 1\<close> of the loop of line 110.
\<close>

definition start_blocks :: "start_env \<Rightarrow> error + height list" where
  "start_blocks env =
     (case flagBeginBlock env of
        Inl err \<Rightarrow> Inl err
      | Inr beginBlock \<Rightarrow>
          (case flagEndBlock env of
             Inl err \<Rightarrow> Inl err
           | Inr endBlock \<Rightarrow>
               (if endBlock = 0 then
                  (case QueryLatestHeight env of
                     Inl err \<Rightarrow> Inl err
                   | Inr latest \<Rightarrow> Inr [beginBlock..latest - 1])
                else Inr [beginBlock..endBlock - 1])))"

text \<open>
  Lines 30-112: everything before the actions are looked up. The result is the first
  error, or the concurrency and the heights, with the lines logged.
\<close>

definition start_setup :: "start_env \<Rightarrow> (error + nat \<times> height list) \<times> log_line list" where
  "start_setup env =
     (case flagConcurrentBlocks env of
        Inl err \<Rightarrow> (Inl err, [])
      | Inr n \<Rightarrow>
          (if n < 1 then
             (Inl (Failure (''invalid flag value 0, value of --concurrent-blocks must be '' @
                            ''greater than or equal to 1'')), [])
           else
             (case GetChainConfig env of
                Some err \<Rightarrow> (Inl err, [])
              | None \<Rightarrow>
                  (case NewChainClient env of
                     Some err \<Rightarrow> (Inl err, [])
                   | None \<Rightarrow>
                       (case ConnectToDatabase env of
                          Some err \<Rightarrow> (Inl err, [])
                        | None \<Rightarrow>
                            (case flagDebugAddr env of
                               Inl err \<Rightarrow> (Inl err, [])
                             | Inr debugAddr \<Rightarrow>
                                 (if debugAddr \<noteq> [] \<and> Listen env \<noteq> None then
                                    (Inl (Failure (''failed to listen on debug address '' @
                                                   debugAddr)),
                                     [FailedToListen])
                                  else
                                    (case start_blocks env of
                                       Inl err \<Rightarrow>
                                         (Inl err,
                                          [if debugAddr = [] then SkippingDebugServer
                                           else DebugServerListening debugAddr])
                                     | Inr blocks \<Rightarrow>
                                         (Inr (n, blocks),
                                          [if debugAddr = [] then SkippingDebugServer
                                           else DebugServerListening debugAddr])))))))))"

text \<open>
  Lines 114-122: the loop over the configured names. A name that
  \<^verbatim>\<open>GetBlockActionByName\<close> does not know is logged and the loop goes on (\<^verbatim>\<open>continue\<close>).
\<close>

fun resolve_actions :: "string list \<Rightarrow> block_action list \<times> log_line list" where
  "resolve_actions [] = ([], [])"
| "resolve_actions (name # names) =
     (case GetBlockActionByName name of
        Inl err \<Rightarrow>
          (fst (resolve_actions names), FailedToGetBlockAction name # snd (resolve_actions names))
      | Inr action \<Rightarrow> (action # fst (resolve_actions names), snd (resolve_actions names)))"

text \<open>
  The function of \<^verbatim>\<open>RunE\<close>, up to the call of line 129: the error it returns before that
  call, or the receiver and the arguments with which it calls \<^verbatim>\<open>ForEachBlock\<close>, whose
  result it then returns; and the lines logged. Nothing between line 30 and line 129
  calls \<^verbatim>\<open>MigrateSchema\<close>.
\<close>

definition startCmd :: "start_env \<Rightarrow> (error + call \<times> height list) \<times> log_line list" where
  "startCmd env =
     (case start_setup env of
        (Inl err, lines) \<Rightarrow> (Inl err, lines)
      | (Inr (n, blocks), lines) \<Rightarrow>
          (if length (fst (resolve_actions (Config_Actions env))) = 0 then
             (Inl (Failure (''no block actions configured, check the actions section '' @
                            ''of your config'')),
              lines @ snd (resolve_actions (Config_Actions env)))
           else
             (Inr (\<lparr>ix = the_indexer env, actions = fst (resolve_actions (Config_Actions env)),
                    concurrentBlocks = n\<rparr>, blocks),
              lines @ snd (resolve_actions (Config_Actions env)))))"

section \<open>Predicates on states\<close>

text \<open>
  Where a goroutine stands on the failure path of lines 88-97: \<open>past_lock\<close> holds once
  line 90 has taken the mutex, \<open>at_deferred\<close> at the deferred call of line 91, and
  \<open>past_deferred\<close> once that call has returned.
\<close>

fun past_lock :: "pc \<Rightarrow> bool" where
  "past_lock (FailAppend e) = True"
| "past_lock (FailDeferred e) = True"
| "past_lock (FailRecv e) = True"
| "past_lock (FailReturn e) = True"
| "past_lock (Exited (Some e)) = True"
| "past_lock p = False"

fun past_deferred :: "pc \<Rightarrow> bool" where
  "past_deferred (FailRecv e) = True"
| "past_deferred (FailReturn e) = True"
| "past_deferred (Exited (Some e)) = True"
| "past_deferred p = False"

fun at_deferred :: "pc \<Rightarrow> bool" where
  "at_deferred (FailDeferred e) = True"
| "at_deferred p = False"

text \<open>
  What holds in every state the call can reach (lemma \<open>lock_inv_reach\<close>): the mutex is
  held as soon as a goroutine has passed line 90; no goroutine gets past the deferred
  call of line 91; the error group has no error; a failure set that is not empty comes
  with a goroutine standing at line 91; no recursive call was entered; and the call has
  returned only \<^verbatim>\<open>nil\<close>, with an empty failure set and every goroutine gone.
\<close>

definition lock_inv :: "state \<Rightarrow> bool" where
  "lock_inv s =
     ((mutex s \<or> list_all (\<lambda>t. \<not> past_lock (t_pc t)) (tasks s)) \<and>
      list_all (\<lambda>t. \<not> past_deferred (t_pc t)) (tasks s) \<and>
      eg_err s = None \<and>
      (failedBlocks s = [] \<or> list_ex (\<lambda>t. at_deferred (t_pc t)) (tasks s)) \<and>
      depth s = 0 \<and>
      (\<forall>r. mpc s = Returned r \<longrightarrow>
         r = None \<and> failedBlocks s = [] \<and> list_all exited (tasks s)))"

text \<open>
  A goroutine holds a slot of the semaphore from the send of line 70 that precedes its
  start until its own receive (line 95 or line 112). \<open>in_flight\<close> counts the goroutines
  that hold one: those still fetching, appending or running actions.
\<close>

fun holds_slot :: "pc \<Rightarrow> bool" where
  "holds_slot (FailReturn e) = False"
| "holds_slot OkReturn = False"
| "holds_slot (Exited r) = False"
| "holds_slot p = True"

definition in_flight :: "state \<Rightarrow> nat" where
  "in_flight s = length (filter (\<lambda>t. holds_slot (t_pc t)) (tasks s))"

definition sem_inv :: "call \<Rightarrow> state \<Rightarrow> bool" where
  "sem_inv c s = (sem s = in_flight s \<and> sem s \<le> concurrentBlocks c)"

text \<open>\<open>failing\<close>: \<^verbatim>\<open>retry.Do\<close> has returned an error and the goroutine has not returned yet
  (lines 88-96).\<close>

fun failing :: "pc \<Rightarrow> bool" where
  "failing (FailLock e) = True"
| "failing (FailAppend e) = True"
| "failing (FailDeferred e) = True"
| "failing (FailRecv e) = True"
| "failing (FailReturn e) = True"
| "failing p = False"

text \<open>What a goroutine's record says of the fetch port: the calls made, with the height
  asked for and the error returned (or none), and the delays slept between them.\<close>

fun calls :: "event list \<Rightarrow> (height \<times> error option) list" where
  "calls [] = []"
| "calls (CallBlock h r # es) = (h, r) # calls es"
| "calls (e # es) = calls es"

fun delays :: "event list \<Rightarrow> nat list" where
  "delays [] = []"
| "delays (Delay d # es) = d # delays es"
| "delays (e # es) = delays es"





text \<open>The calls of \<^verbatim>\<open>Execute\<close> a goroutine made, in order: the action's name and the block
  it was given.\<close>

fun executed :: "event list \<Rightarrow> (string \<times> block) list" where
  "executed [] = []"
| "executed (CallExecute a b r # es) = (a, b) # executed es"
| "executed (e # es) = executed es"





text \<open>
  The steps that are left on that path: for a goroutine, the fetch, one step for each
  action still to execute, the receive and the return; for the caller, what the
  goroutines still to launch will take, then the move to \<^verbatim>\<open>eg.Wait()\<close> and the return; and
  the one step with which the environment can cancel the context.
\<close>

fun task_work :: "nat \<Rightarrow> pc \<Rightarrow> nat" where
  "task_work n (Attempt m) = n + 3"
| "task_work n (Acting k) = (n - k) + 2"
| "task_work n OkReturn = 1"
| "task_work n p = 0"

fun main_work :: "nat \<Rightarrow> main_pc \<Rightarrow> nat" where
  "main_work n (Launch hs) = length hs * (n + 4) + 2"
| "main_work n Waiting = 1"
| "main_work n (Returned r) = 0"

definition work :: "call \<Rightarrow> state \<Rightarrow> nat" where
  "work c s =
     main_work (length (actions c)) (mpc s) +
     sum_list (map (\<lambda>t. task_work (length (actions c)) (t_pc t)) (tasks s)) +
     (if ctx_cancelled s then 0 else 1)"

text \<open>
  With no slot at all the caller's goroutine never gets past the first send: no
  goroutine is started and the node is never called; the call stays in the loop, or,
  for an empty list of heights, goes to \<^verbatim>\<open>eg.Wait()\<close> and returns \<^verbatim>\<open>nil\<close>.
\<close>

definition no_slot_inv :: "height list \<Rightarrow> state \<Rightarrow> bool" where
  "no_slot_inv blocks s =
     (tasks s = [] \<and> rpc_calls s = 0 \<and> sem s = 0 \<and> failedBlocks s = [] \<and> eg_err s = None \<and>
      (mpc s = Launch blocks \<or> blocks = [] \<and> (mpc s = Waiting \<or> mpc s = Returned None)))"

text \<open>The variable \<^verbatim>\<open>block\<close> of line 73 has been assigned when a goroutine is in the loop
  over the actions.\<close>

fun block_assigned :: "pc \<Rightarrow> block option \<Rightarrow> bool" where
  "block_assigned (Acting k) None = False"
| "block_assigned p bo = True"

section \<open>Concrete runs\<close>

text \<open>A node that answers no request, and a schedule on which a goroutine uses up its
  five attempts and four delays.\<close>

definition node_down :: indexer where
  "node_down =
     \<lparr>ChainID = ''demo'', RPC_Block = (\<lambda>h k. Inl (Failure ''unreachable'')),
      TxDecoder = (\<lambda>tx. Inl (Failure ''undecodable'')), QueryTx = (\<lambda>tx. Inl (Failure ''not found'')),
      Bytea_Set = (\<lambda>h. None), Timestamp_Set = (\<lambda>t. None), JSONB_Set = (\<lambda>l. None),
      DB_Create = (\<lambda>r. None), DB_AutoMigrate = None\<rparr>"

definition retries :: "nat \<Rightarrow> actor list" where
  "retries i = replicate 9 (TaskG i)"

definition two_down :: call where
  "two_down = \<lparr>ix = node_down, actions = [], concurrentBlocks = 2\<rparr>"

definition two_down_sched :: "actor list" where
  "two_down_sched = [MainG, MainG] @ retries 0 @ retries 1 @ [TaskG 0, TaskG 0]"

definition one_down :: call where
  "one_down = \<lparr>ix = node_down, actions = [], concurrentBlocks = 1\<rparr>"

definition one_down_sched :: "actor list" where
  "one_down_sched = [MainG] @ retries 0 @ [TaskG 0, TaskG 0]"

text \<open>A node that answers every request with an empty block, and three actions of
  which the second fails.\<close>

definition node_up :: indexer where
  "node_up =
     \<lparr>ChainID = ''demo'', RPC_Block = (\<lambda>h k. Inr \<lparr>Height = h, Time = 0, Txs = []\<rparr>),
      TxDecoder = (\<lambda>tx. Inl (Failure ''undecodable'')), QueryTx = (\<lambda>tx. Inl (Failure ''not found'')),
      Bytea_Set = (\<lambda>h. None), Timestamp_Set = (\<lambda>t. None), JSONB_Set = (\<lambda>l. None),
      DB_Create = (\<lambda>r. None), DB_AutoMigrate = None\<rparr>"

definition act :: "string \<Rightarrow> error option \<Rightarrow> block_action" where
  "act n r = \<lparr>Name = n, MigrateSchema = (\<lambda>i. None), Execute = (\<lambda>d i b. Returns r)\<rparr>"



text \<open>A node whose decoder yields a transaction that has no fee interface, and a block
  with one transaction.\<close>

definition no_fee_node :: indexer where
  "no_fee_node =
     \<lparr>ChainID = ''demo'', RPC_Block = (\<lambda>h k. Inr \<lparr>Height = h, Time = 0, Txs = [''tx'']\<rparr>),
      TxDecoder = (\<lambda>tx. Inr \<lparr>GetMsgs = [], FeeTx = None\<rparr>),
      QueryTx = (\<lambda>tx. Inr \<lparr>Code = 0, Log = ''[]'', GasUsed = 1, GasWanted = 2\<rparr>),
      Bytea_Set = (\<lambda>h. None), Timestamp_Set = (\<lambda>t. None), JSONB_Set = (\<lambda>l. None),
      DB_Create = (\<lambda>r. None), DB_AutoMigrate = None\<rparr>"

text \<open>A start of the command for the heights 1 and 2 with one slot, given the indexer and
  the names under \<^verbatim>\<open>actions\<close>.\<close>

definition start_with :: "indexer \<Rightarrow> nat \<Rightarrow> string list \<Rightarrow> start_env" where
  "start_with i n names =
     \<lparr>flagConcurrentBlocks = Inr n, GetChainConfig = None, NewChainClient = None,
      ConnectToDatabase = None, the_indexer = i, flagDebugAddr = Inr [], Listen = None,
      flagBeginBlock = Inr 1, flagEndBlock = Inr 3, QueryLatestHeight = Inr 100,
      Config_Actions = names\<rparr>"

definition ics20_sched :: "actor list" where
  "ics20_sched = [MainG, TaskG 0, TaskG 0, TaskG 0, TaskG 0, MainG, TaskG 1, TaskG 1, TaskG 1, TaskG 1, MainG, MainG]"

definition no_slot :: call where
  "no_slot = \<lparr>ix = node_up, actions = [act ''A'' None], concurrentBlocks = 0\<rparr>"

section \<open>Helper lemmas\<close>

lemma run_append:
  "run c (xs @ ys) s = (case run c xs s of None \<Rightarrow> None | Some s' \<Rightarrow> run c ys s')"
  by (induction xs arbitrary: s) (auto split: option.splits)

lemma run_invariant:
  assumes "P s" and "\<And>a s s'. P s \<Longrightarrow> step c a s = Some s' \<Longrightarrow> P s'"
    and "run c sched s = Some s'"
  shows "P s'"
  using assms(1,3)
proof (induction sched arbitrary: s)
  case Nil then show ?case by simp
next
  case (Cons a sched)
  then show ?case using assms(2) by (auto split: option.splits)
qed

lemma list_all_update: "list_all P ts \<Longrightarrow> P t \<Longrightarrow> list_all P (ts[i := t])"
  by (induction ts arbitrary: i) (auto split: nat.splits)

lemma list_all_nthD: "list_all P ts \<Longrightarrow> i < length ts \<Longrightarrow> P (ts ! i)"
  by (simp add: list_all_length)

lemma list_ex_update_other:
  "list_ex P ts \<Longrightarrow> \<not> P (ts ! i) \<Longrightarrow> list_ex P (ts[i := t])"
proof -
  assume a: "list_ex P ts" and b: "\<not> P (ts ! i)"
  from a obtain j where j: "j < length ts" "P (ts ! j)"
    by (auto simp: list_ex_length)
  with b have "j \<noteq> i" by auto
  with j have "j < length (ts[i := t]) \<and> P (ts[i := t] ! j)" by simp
  then show ?thesis unfolding list_ex_length by blast
qed

lemma list_ex_update_new: "i < length ts \<Longrightarrow> P t \<Longrightarrow> list_ex P (ts[i := t])"
  unfolding list_ex_length by (rule exI[of _ i]) simp

lemma lock_inv_init: "lock_inv (init blocks)"
  by (simp add: lock_inv_def init_def)

lemma exited_iff: "exited t = (\<exists>r. t_pc t = Exited r)"
  by (cases "t_pc t") (auto simp: exited_def)

lemma list_all_exited_nth: "list_all exited ts \<Longrightarrow> list_ex (\<lambda>t. at_deferred (t_pc t)) ts \<Longrightarrow> False"
  by (auto simp: list_all_iff list_ex_iff exited_iff)

lemma lock_inv_main: "lock_inv s \<Longrightarrow> main_step c s = Some s' \<Longrightarrow> lock_inv s'"
  unfolding main_step_def lock_inv_def
  by (auto split: main_pc.splits list.splits if_splits option.splits simp: enter_def dest: list_all_exited_nth)

lemma task_step_cases [consumes 1, case_names fetched failed cut_short slept locked appended relocked failrecv failreturn nilblock panicked executed warned okrecv okreturn]:
  assumes "task_step c i s = Some s'"
  obtains
    (fetched) n b where "i < length (tasks s)" "t_pc (tasks s ! i) = Attempt n"
      "RPC_Block (ix c) (t_h (tasks s ! i)) (rpc_calls s) = Inr b"
      "s' = (put i ((goto (Acting 0) [CallBlock (t_h (tasks s ! i)) None] (tasks s ! i))\<lparr>t_block := Some b\<rparr>) s)
              \<lparr>rpc_calls := Suc (rpc_calls s)\<rparr>"
  | (failed) n e where "i < length (tasks s)" "t_pc (tasks s ! i) = Attempt n"
      "RPC_Block (ix c) (t_h (tasks s ! i)) (rpc_calls s) = Inl e"
      "s' = (put i (goto (if n = RtyAttNum - 1 then FailLock e else Backoff n e)
                     [CallBlock (t_h (tasks s ! i)) (Some e)] (tasks s ! i)) s)
              \<lparr>rpc_calls := Suc (rpc_calls s)\<rparr>"
  | (cut_short) n e where "i < length (tasks s)" "t_pc (tasks s ! i) = Backoff n e" "egCtx_done s"
      "s' = put i (goto (FailLock Canceled) [] (tasks s ! i)) s"
  | (slept) n e where "i < length (tasks s)" "t_pc (tasks s ! i) = Backoff n e" "\<not> egCtx_done s"
      "s' = put i (goto (Attempt (Suc n)) [Delay (BackOffDelay n)] (tasks s ! i)) s"
  | (locked) e where "i < length (tasks s)" "t_pc (tasks s ! i) = FailLock e" "\<not> mutex s"
      "s' = (put i (goto (FailAppend e) [] (tasks s ! i)) s)\<lparr>mutex := True\<rparr>"
  | (appended) e where "i < length (tasks s)" "t_pc (tasks s ! i) = FailAppend e"
      "s' = (put i (goto (FailDeferred e) [] (tasks s ! i)) s)
              \<lparr>failedBlocks := failedBlocks s @ [t_h (tasks s ! i)]\<rparr>"
  | (relocked) e where "i < length (tasks s)" "t_pc (tasks s ! i) = FailDeferred e" "\<not> mutex s"
      "s' = (put i (goto (FailRecv e) [] (tasks s ! i)) s)\<lparr>mutex := True\<rparr>"
  | (failrecv) e where "i < length (tasks s)" "t_pc (tasks s ! i) = FailRecv e" "sem s \<noteq> 0"
      "s' = (put i (goto (FailReturn e) [] (tasks s ! i)) s)\<lparr>sem := sem s - 1\<rparr>"
  | (failreturn) e where "i < length (tasks s)" "t_pc (tasks s ! i) = FailReturn e"
      "s' = (put i (goto (Exited (Some e)) [] (tasks s ! i)) s)
              \<lparr>eg_err := (case eg_err s of None \<Rightarrow> Some e | Some e' \<Rightarrow> Some e')\<rparr>"
  | (nilblock) k where "i < length (tasks s)" "t_pc (tasks s ! i) = Acting k" "k < length (actions c)"
      "t_block (tasks s ! i) = None" "s' = s\<lparr>crashed := True\<rparr>"
  | (panicked) k b where "i < length (tasks s)" "t_pc (tasks s ! i) = Acting k" "k < length (actions c)"
      "t_block (tasks s ! i) = Some b"
      "Execute (actions c ! k) (egCtx_done s) (ix c) b = Panics" "s' = s\<lparr>crashed := True\<rparr>"
  | (executed) k b where "i < length (tasks s)" "t_pc (tasks s ! i) = Acting k" "k < length (actions c)"
      "t_block (tasks s ! i) = Some b"
      "Execute (actions c ! k) (egCtx_done s) (ix c) b = Returns None"
      "s' = put i (goto (Acting (Suc k)) [CallExecute (Name (actions c ! k)) b None] (tasks s ! i)) s"
  | (warned) k b e where "i < length (tasks s)" "t_pc (tasks s ! i) = Acting k" "k < length (actions c)"
      "t_block (tasks s ! i) = Some b"
      "Execute (actions c ! k) (egCtx_done s) (ix c) b = Returns (Some e)"
      "s' = put i (goto (Acting (Suc k))
                    [CallExecute (Name (actions c ! k)) b (Some e),
                     WarnFailedToExecute (Name (actions c ! k)) (Height b) e] (tasks s ! i)) s"
  | (okrecv) k where "i < length (tasks s)" "t_pc (tasks s ! i) = Acting k" "\<not> k < length (actions c)"
      "sem s \<noteq> 0" "s' = (put i (goto OkReturn [] (tasks s ! i)) s)\<lparr>sem := sem s - 1\<rparr>"
  | (okreturn) "i < length (tasks s)" "t_pc (tasks s ! i) = OkReturn"
      "s' = put i (goto (Exited None) [] (tasks s ! i)) s"
proof -
  from assms have len: "i < length (tasks s)"
    by (simp add: task_step_def split: if_splits)
  show thesis
  proof (cases "t_pc (tasks s ! i)")
    case (Attempt n)
    with assms len fetched failed show ?thesis
      by (cases "RPC_Block (ix c) (t_h (tasks s ! i)) (rpc_calls s)")
        (simp_all add: task_step_def Let_def retry_failed_def)
  next
    case (Backoff n e)
    with assms len cut_short slept show ?thesis
      by (cases "egCtx_done s") (simp_all add: task_step_def Let_def retry_wait_def)
  next
    case (FailLock e)
    with assms len locked show ?thesis
      by (cases "mutex s") (simp_all add: task_step_def Let_def)
  next
    case (FailAppend e)
    with assms len appended show ?thesis
      by (simp add: task_step_def Let_def)
  next
    case (FailDeferred e)
    with assms len relocked show ?thesis
      by (cases "mutex s") (simp_all add: task_step_def Let_def)
  next
    case (FailRecv e)
    with assms len failrecv show ?thesis
      by (cases "sem s = 0") (simp_all add: task_step_def Let_def)
  next
    case (FailReturn e)
    with assms len failreturn show ?thesis
      by (simp add: task_step_def Let_def)
  next
    case (Acting k)
    show ?thesis
    proof (cases "k < length (actions c)")
      case True
      show ?thesis
      proof (cases "t_block (tasks s ! i)")
        case None
        with assms len Acting True nilblock show ?thesis
          by (simp add: task_step_def Let_def)
      next
        case (Some b)
        show ?thesis
        proof (cases "Execute (actions c ! k) (egCtx_done s) (ix c) b")
          case Panics
          with assms len Acting True Some panicked show ?thesis
            by (simp add: task_step_def Let_def)
        next
          case (Returns r)
          with assms len Acting True Some executed warned show ?thesis
            by (cases r) (simp_all add: task_step_def Let_def)
        qed
      qed
    next
      case False
      with assms len Acting okrecv show ?thesis
        by (cases "sem s = 0") (simp_all add: task_step_def Let_def)
    qed
  next
    case OkReturn
    with assms len okreturn show ?thesis
      by (simp add: task_step_def Let_def)
  next
    case (Exited r)
    with assms len show ?thesis
      by (simp add: task_step_def Let_def)
  qed
qed

lemma put_simps [simp]:
  "tasks (put i t s) = (tasks s)[i := t]"
  "depth (put i t s) = depth s"
  "mpc (put i t s) = mpc s"
  "mutex (put i t s) = mutex s"
  "failedBlocks (put i t s) = failedBlocks s"
  "sem (put i t s) = sem s"
  "eg_err (put i t s) = eg_err s"
  "ctx_cancelled (put i t s) = ctx_cancelled s"
  "rpc_calls (put i t s) = rpc_calls s"
  "crashed (put i t s) = crashed s"
  by (simp_all add: put_def)

lemma goto_simps [simp]:
  "t_pc (goto p evs t) = p"
  "t_log (goto p evs t) = t_log t @ evs"
  "t_h (goto p evs t) = t_h t"
  "t_block (goto p evs t) = t_block t"
  by (simp_all add: goto_def)

lemma task_step_not_all_exited:
  assumes "task_step c i s = Some s'"
  shows "\<not> list_all exited (tasks s)"
proof
  assume all: "list_all exited (tasks s)"
  from assms have len: "i < length (tasks s)"
    by (simp add: task_step_def split: if_splits)
  with all have "exited (tasks s ! i)" by (rule list_all_nthD)
  then obtain r where "t_pc (tasks s ! i) = Exited r" by (auto simp: exited_iff)
  with assms len show False by (simp add: task_step_def)
qed

lemma lock_inv_task: 
  assumes "lock_inv s" and "task_step c i s = Some s'"
  shows "lock_inv s'"
proof -
  from assms(2) have "\<not> list_all exited (tasks s)" by (rule task_step_not_all_exited)
  with assms(1) have noret: "\<And>r. mpc s \<noteq> Returned r" by (auto simp: lock_inv_def)
  from assms(2) show ?thesis
  proof (cases rule: task_step_cases)
    case (fetched n b)
    with assms(1) noret show ?thesis by (auto simp: lock_inv_def dest: list_all_nthD intro: list_all_update list_ex_update_other list_ex_update_new)
  next
    case (failed n e)
    with assms(1) noret show ?thesis by (auto simp: lock_inv_def dest: list_all_nthD intro: list_all_update list_ex_update_other list_ex_update_new)
  next
    case (cut_short n e)
    with assms(1) noret show ?thesis by (auto simp: lock_inv_def dest: list_all_nthD intro: list_all_update list_ex_update_other list_ex_update_new)
  next
    case (slept n e)
    with assms(1) noret show ?thesis by (auto simp: lock_inv_def dest: list_all_nthD intro: list_all_update list_ex_update_other list_ex_update_new)
  next
    case (locked e)
    with assms(1) noret show ?thesis by (auto simp: lock_inv_def dest: list_all_nthD intro: list_all_update list_ex_update_other list_ex_update_new)
  next
    case (appended e)
    with assms(1) noret show ?thesis by (auto simp: lock_inv_def dest: list_all_nthD intro: list_all_update list_ex_update_other list_ex_update_new)
  next
    case (relocked e)
    with assms(1) noret show ?thesis by (auto simp: lock_inv_def dest: list_all_nthD intro: list_all_update list_ex_update_other list_ex_update_new)
  next
    case (failrecv e)
    with assms(1) noret show ?thesis by (auto simp: lock_inv_def dest: list_all_nthD intro: list_all_update list_ex_update_other list_ex_update_new)
  next
    case (failreturn e)
    with assms(1) noret show ?thesis by (auto simp: lock_inv_def dest: list_all_nthD intro: list_all_update list_ex_update_other list_ex_update_new)
  next
    case (nilblock k)
    with assms(1) noret show ?thesis by (auto simp: lock_inv_def)
  next
    case (panicked k b)
    with assms(1) noret show ?thesis by (auto simp: lock_inv_def)
  next
    case (executed k b)
    with assms(1) noret show ?thesis by (auto simp: lock_inv_def dest: list_all_nthD intro: list_all_update list_ex_update_other list_ex_update_new)
  next
    case (warned k b e)
    with assms(1) noret show ?thesis by (auto simp: lock_inv_def dest: list_all_nthD intro: list_all_update list_ex_update_other list_ex_update_new)
  next
    case (okrecv k)
    with assms(1) noret show ?thesis by (auto simp: lock_inv_def dest: list_all_nthD intro: list_all_update list_ex_update_other list_ex_update_new)
  next
    case okreturn
    with assms(1) noret show ?thesis by (auto simp: lock_inv_def dest: list_all_nthD intro: list_all_update list_ex_update_other list_ex_update_new)
  qed
qed

lemma lock_inv_cancel: "lock_inv (s\<lparr>ctx_cancelled := True\<rparr>) = lock_inv s"
  by (simp add: lock_inv_def)

lemma lock_inv_step:
  assumes "lock_inv s" and "step c a s = Some s'"
  shows "lock_inv s'"
proof (cases a)
  case MainG
  with assms show ?thesis by (auto simp: step_def split: if_splits intro: lock_inv_main)
next
  case (TaskG i)
  with assms show ?thesis by (auto simp: step_def split: if_splits intro: lock_inv_task)
next
  case CancelCtx
  with assms show ?thesis by (auto simp: step_def lock_inv_cancel split: if_splits)
qed

lemma lock_inv_run: "lock_inv s \<Longrightarrow> run c sched s = Some s' \<Longrightarrow> lock_inv s'"
  by (rule run_invariant[where P = lock_inv]) (auto intro: lock_inv_step)

lemma lock_inv_reach: "ForEachBlock c blocks sched = Some s \<Longrightarrow> lock_inv s"
  unfolding ForEachBlock_def by (rule lock_inv_run[OF lock_inv_init])

lemma lock_inv_mutex:
  "lock_inv s \<Longrightarrow> i < length (tasks s) \<Longrightarrow> past_lock (t_pc (tasks s ! i)) \<Longrightarrow> mutex s"
  by (auto simp: lock_inv_def dest: list_all_nthD)

lemma deferred_stays_main:
  assumes "i < length (tasks s)" and "t_pc (tasks s ! i) = FailDeferred e"
    and "main_step c s = Some s'"
  shows "i < length (tasks s') \<and> t_pc (tasks s' ! i) = FailDeferred e"
proof -
  from assms(1,2) have "\<not> exited (tasks s ! i)" by (simp add: exited_iff)
  with assms(1) have "\<not> list_all exited (tasks s)" by (auto dest: list_all_nthD)
  with assms show ?thesis
    by (auto simp: main_step_def nth_append split: main_pc.splits list.splits if_splits)
qed

lemma deferred_stays_task:
  assumes "mutex s" and "i < length (tasks s)" and "t_pc (tasks s ! i) = FailDeferred e"
    and "task_step c j s = Some s'"
  shows "i < length (tasks s') \<and> t_pc (tasks s' ! i) = FailDeferred e"
  using assms(4)
  by (cases rule: task_step_cases) (use assms(1-3) in \<open>auto simp: nth_list_update\<close>)

lemma deferred_stays_step:
  assumes "lock_inv s" and "i < length (tasks s)" and "t_pc (tasks s ! i) = FailDeferred e"
    and "step c a s = Some s'"
  shows "i < length (tasks s') \<and> t_pc (tasks s' ! i) = FailDeferred e"
proof -
  from assms(1-3) have m: "mutex s" by (auto intro: lock_inv_mutex)
  show ?thesis
  proof (cases a)
    case MainG
    with assms show ?thesis by (auto simp: step_def split: if_splits dest: deferred_stays_main)
  next
    case (TaskG j)
    with assms m show ?thesis by (auto simp: step_def split: if_splits dest: deferred_stays_task)
  next
    case CancelCtx
    with assms show ?thesis by (auto simp: step_def split: if_splits)
  qed
qed

lemma deferred_stays_run:
  assumes "lock_inv s" and "i < length (tasks s)" and "t_pc (tasks s ! i) = FailDeferred e"
    and "run c rest s = Some s'"
  shows "lock_inv s' \<and> i < length (tasks s') \<and> t_pc (tasks s' ! i) = FailDeferred e"
proof (rule run_invariant[where P = "\<lambda>s. lock_inv s \<and> i < length (tasks s) \<and> t_pc (tasks s ! i) = FailDeferred e", OF _ _ assms(4)])
  show "lock_inv s \<and> i < length (tasks s) \<and> t_pc (tasks s ! i) = FailDeferred e"
    using assms by simp
next
  fix a s s'
  assume "lock_inv s \<and> i < length (tasks s) \<and> t_pc (tasks s ! i) = FailDeferred e"
    and "step c a s = Some s'"
  then show "lock_inv s' \<and> i < length (tasks s') \<and> t_pc (tasks s' ! i) = FailDeferred e"
    using lock_inv_step deferred_stays_step by blast
qed

lemma locked_task_blocked:
  "mutex s \<Longrightarrow> i < length (tasks s) \<Longrightarrow> t_pc (tasks s ! i) = FailDeferred e \<or> t_pc (tasks s ! i) = FailLock e
    \<Longrightarrow> step c (TaskG i) s = None"
  by (auto simp: step_def task_step_def)

lemma failed_stays_step:
  assumes "i < length (tasks s)" and "t_pc (tasks s ! i) = FailDeferred e"
    and "failedBlocks s \<noteq> []" and "step c a s = Some s'"
  shows "failedBlocks s' \<noteq> []"
proof (cases a)
  case MainG
  from assms(1,2) have "\<not> exited (tasks s ! i)" by (simp add: exited_iff)
  with assms(1) have "\<not> list_all exited (tasks s)" by (auto dest: list_all_nthD)
  with assms MainG show ?thesis
    by (auto simp: step_def main_step_def split: main_pc.splits list.splits if_splits)
next
  case (TaskG j)
  with assms(4) have "task_step c j s = Some s'" by (simp add: step_def split: if_splits)
  then show ?thesis
    by (cases rule: task_step_cases) (use assms(3) in auto)
next
  case CancelCtx
  with assms show ?thesis by (auto simp: step_def split: if_splits)
qed

lemma failed_stays_run:
  assumes "lock_inv s" and "i < length (tasks s)" and "t_pc (tasks s ! i) = FailDeferred e"
    and "failedBlocks s \<noteq> []" and "run c rest s = Some s'"
  shows "lock_inv s' \<and> i < length (tasks s') \<and> t_pc (tasks s' ! i) = FailDeferred e \<and> failedBlocks s' \<noteq> []"
proof (rule run_invariant[where P = "\<lambda>s. lock_inv s \<and> i < length (tasks s) \<and> t_pc (tasks s ! i) = FailDeferred e \<and> failedBlocks s \<noteq> []", OF _ _ assms(5)])
  show "lock_inv s \<and> i < length (tasks s) \<and> t_pc (tasks s ! i) = FailDeferred e \<and> failedBlocks s \<noteq> []"
    using assms by simp
next
  fix a s s'
  assume "lock_inv s \<and> i < length (tasks s) \<and> t_pc (tasks s ! i) = FailDeferred e \<and> failedBlocks s \<noteq> []"
    and "step c a s = Some s'"
  then show "lock_inv s' \<and> i < length (tasks s') \<and> t_pc (tasks s' ! i) = FailDeferred e \<and> failedBlocks s' \<noteq> []"
    using lock_inv_step deferred_stays_step failed_stays_step by blast
qed

lemma lock_inv_deferred:
  assumes "lock_inv s" and "failedBlocks s \<noteq> []"
  obtains i e where "i < length (tasks s)" and "t_pc (tasks s ! i) = FailDeferred e"
proof -
  from assms have "list_ex (\<lambda>t. at_deferred (t_pc t)) (tasks s)" by (simp add: lock_inv_def)
  then obtain i where i: "i < length (tasks s)" "at_deferred (t_pc (tasks s ! i))"
    by (auto simp: list_ex_length)
  then obtain e where "t_pc (tasks s ! i) = FailDeferred e"
    by (cases "t_pc (tasks s ! i)") auto
  with i that show thesis by blast
qed

lemma length_filter_update:
  "i < length ts \<Longrightarrow>
   length (filter P (ts[i := t])) + (if P (ts ! i) then 1 else 0) =
   length (filter P ts) + (if P t then 1 else 0)"
proof (induction ts arbitrary: i)
  case Nil
  then show ?case by simp
next
  case (Cons a ts)
  show ?case
  proof (cases i)
    case 0
    then show ?thesis by simp
  next
    case (Suc j)
    with Cons.prems have "j < length ts" by simp
    from Cons.IH[OF this] Suc show ?thesis by simp
  qed
qed

lemma in_flight_put:
  assumes "i < length (tasks s)"
  shows "in_flight (put i t s) + (if holds_slot (t_pc (tasks s ! i)) then 1 else 0) =
         in_flight s + (if holds_slot (t_pc t) then 1 else 0)"
  using length_filter_update[OF assms, of "\<lambda>t. holds_slot (t_pc t)" t]
  by (simp add: in_flight_def)

lemma in_flight_fields [simp]:
  "in_flight (s\<lparr>rpc_calls := n\<rparr>) = in_flight s"
  "in_flight (s\<lparr>mutex := m\<rparr>) = in_flight s"
  "in_flight (s\<lparr>failedBlocks := f\<rparr>) = in_flight s"
  "in_flight (s\<lparr>sem := k\<rparr>) = in_flight s"
  "in_flight (s\<lparr>eg_err := r\<rparr>) = in_flight s"
  "in_flight (s\<lparr>crashed := b\<rparr>) = in_flight s"
  "in_flight (s\<lparr>ctx_cancelled := b\<rparr>) = in_flight s"
  "in_flight (s\<lparr>mpc := m'\<rparr>) = in_flight s"
  by (simp_all add: in_flight_def)

lemma sem_inv_init: "sem_inv c (init blocks)"
  by (simp add: sem_inv_def init_def in_flight_def)

lemma sem_inv_main: "sem_inv c s \<Longrightarrow> main_step c s = Some s' \<Longrightarrow> sem_inv c s'"
  by (auto simp: main_step_def sem_inv_def in_flight_def enter_def
      split: main_pc.splits list.splits if_splits option.splits)

lemma sem_inv_task:
  assumes "sem_inv c s" and "task_step c i s = Some s'"
  shows "sem_inv c s'"
  using assms(2)
proof (cases rule: task_step_cases)
  case (fetched n b)
  with assms(1) in_flight_put[OF fetched(1), of "(goto (Acting 0) [CallBlock (t_h (tasks s ! i)) None] (tasks s ! i))\<lparr>t_block := Some b\<rparr>"]
  show ?thesis by (simp add: sem_inv_def)
next
  case (failed n e)
  with assms(1) in_flight_put[OF failed(1), of "goto (if n = RtyAttNum - 1 then FailLock e else Backoff n e) [CallBlock (t_h (tasks s ! i)) (Some e)] (tasks s ! i)"]
  show ?thesis by (simp add: sem_inv_def split: if_splits)
next
  case (cut_short n e)
  with assms(1) in_flight_put[OF cut_short(1), of "goto (FailLock Canceled) [] (tasks s ! i)"]
  show ?thesis by (simp add: sem_inv_def)
next
  case (slept n e)
  with assms(1) in_flight_put[OF slept(1), of "goto (Attempt (Suc n)) [Delay (BackOffDelay n)] (tasks s ! i)"]
  show ?thesis by (simp add: sem_inv_def)
next
  case (locked e)
  with assms(1) in_flight_put[OF locked(1), of "goto (FailAppend e) [] (tasks s ! i)"]
  show ?thesis by (simp add: sem_inv_def)
next
  case (appended e)
  with assms(1) in_flight_put[OF appended(1), of "goto (FailDeferred e) [] (tasks s ! i)"]
  show ?thesis by (simp add: sem_inv_def)
next
  case (relocked e)
  with assms(1) in_flight_put[OF relocked(1), of "goto (FailRecv e) [] (tasks s ! i)"]
  show ?thesis by (simp add: sem_inv_def)
next
  case (failrecv e)
  with assms(1) in_flight_put[OF failrecv(1), of "goto (FailReturn e) [] (tasks s ! i)"]
  show ?thesis by (auto simp: sem_inv_def)
next
  case (failreturn e)
  with assms(1) in_flight_put[OF failreturn(1), of "goto (Exited (Some e)) [] (tasks s ! i)"]
  show ?thesis by (simp add: sem_inv_def)
next
  case (nilblock k)
  with assms(1) show ?thesis by (simp add: sem_inv_def)
next
  case (panicked k b)
  with assms(1) show ?thesis by (simp add: sem_inv_def)
next
  case (executed k b)
  with assms(1) in_flight_put[OF executed(1), of "goto (Acting (Suc k)) [CallExecute (Name (actions c ! k)) b None] (tasks s ! i)"]
  show ?thesis by (simp add: sem_inv_def)
next
  case (warned k b e)
  with assms(1) in_flight_put[OF warned(1), of "goto (Acting (Suc k)) [CallExecute (Name (actions c ! k)) b (Some e), WarnFailedToExecute (Name (actions c ! k)) (Height b) e] (tasks s ! i)"]
  show ?thesis by (simp add: sem_inv_def)
next
  case (okrecv k)
  with assms(1) in_flight_put[OF okrecv(1), of "goto OkReturn [] (tasks s ! i)"]
  show ?thesis by (auto simp: sem_inv_def)
next
  case okreturn
  with assms(1) in_flight_put[OF okreturn(1), of "goto (Exited None) [] (tasks s ! i)"]
  show ?thesis by (simp add: sem_inv_def)
qed

lemma sem_inv_step:
  assumes "sem_inv c s" and "step c a s = Some s'"
  shows "sem_inv c s'"
proof (cases a)
  case MainG
  with assms show ?thesis by (auto simp: step_def split: if_splits intro: sem_inv_main)
next
  case (TaskG i)
  with assms show ?thesis by (auto simp: step_def split: if_splits intro: sem_inv_task)
next
  case CancelCtx
  with assms show ?thesis by (auto simp: step_def sem_inv_def split: if_splits)
qed

lemma sem_inv_run: "sem_inv c s \<Longrightarrow> run c sched s = Some s' \<Longrightarrow> sem_inv c s'"
  by (rule run_invariant[where P = "sem_inv c"]) (auto intro: sem_inv_step)

lemma in_flight_bounded:
  "ForEachBlock c blocks sched = Some s \<Longrightarrow> sem s = in_flight s \<and> in_flight s \<le> concurrentBlocks c"
  unfolding ForEachBlock_def
  using sem_inv_run[where c = c and s = "init blocks" and sched = sched and s' = s] sem_inv_init[of c blocks]
  by (auto simp: sem_inv_def)

lemma in_flight_pos:
  assumes "i < length (tasks s)" and "holds_slot (t_pc (tasks s ! i))"
  shows "0 < in_flight s"
proof -
  from assms have "tasks s ! i \<in> set (filter (\<lambda>t. holds_slot (t_pc t)) (tasks s))" by simp
  then show ?thesis unfolding in_flight_def by (auto simp: length_greater_0_conv[symmetric] simp del: length_greater_0_conv set_filter)
qed

lemma failing_stays_main:
  assumes "i < length (tasks s)" and "failing (t_pc (tasks s ! i))"
    and "main_step c s = Some s'"
  shows "i < length (tasks s') \<and> failing (t_pc (tasks s' ! i))"
proof -
  from assms(2) have "\<not> exited (tasks s ! i)" by (auto simp: exited_iff)
  with assms(1) have "\<not> list_all exited (tasks s)" by (auto dest: list_all_nthD)
  with assms show ?thesis
    by (auto simp: main_step_def nth_append split: main_pc.splits list.splits if_splits)
qed

lemma failing_stays_task:
  assumes "lock_inv s" and "i < length (tasks s)" and "failing (t_pc (tasks s ! i))"
    and "task_step c j s = Some s'"
  shows "i < length (tasks s') \<and> failing (t_pc (tasks s' ! i))"
proof -
  from assms(1) have np: "\<And>k. k < length (tasks s) \<Longrightarrow> \<not> past_deferred (t_pc (tasks s ! k))"
    by (auto simp: lock_inv_def dest: list_all_nthD)
  from assms(4) show ?thesis
    by (cases rule: task_step_cases) (use assms(2,3) np[of j] in \<open>auto simp: nth_list_update\<close>)
qed

lemma failing_stays_step:
  assumes "lock_inv s" and "i < length (tasks s)" and "failing (t_pc (tasks s ! i))"
    and "step c a s = Some s'"
  shows "i < length (tasks s') \<and> failing (t_pc (tasks s' ! i))"
proof (cases a)
  case MainG
  with assms show ?thesis by (auto simp: step_def split: if_splits dest: failing_stays_main)
next
  case (TaskG j)
  with assms show ?thesis by (auto simp: step_def split: if_splits dest: failing_stays_task)
next
  case CancelCtx
  with assms show ?thesis by (auto simp: step_def split: if_splits)
qed

lemma failing_stays_run:
  assumes "lock_inv s" and "i < length (tasks s)" and "failing (t_pc (tasks s ! i))"
    and "run c rest s = Some s'"
  shows "lock_inv s' \<and> i < length (tasks s') \<and> failing (t_pc (tasks s' ! i))"
proof (rule run_invariant[where P = "\<lambda>s. lock_inv s \<and> i < length (tasks s) \<and> failing (t_pc (tasks s ! i))", OF _ _ assms(4)])
  show "lock_inv s \<and> i < length (tasks s) \<and> failing (t_pc (tasks s ! i))"
    using assms by simp
next
  fix a s s'
  assume "lock_inv s \<and> i < length (tasks s) \<and> failing (t_pc (tasks s ! i))"
    and "step c a s = Some s'"
  then show "lock_inv s' \<and> i < length (tasks s') \<and> failing (t_pc (tasks s' ! i))"
    using lock_inv_step failing_stays_step by blast
qed

lemma failing_holds_slot:
  "failing p \<Longrightarrow> \<not> past_deferred p \<Longrightarrow> holds_slot p"
  by (cases p) auto

lemma calls_append [simp]: "calls (xs @ ys) = calls xs @ calls ys"
  by (induction xs rule: calls.induct) simp_all

lemma delays_append [simp]: "delays (xs @ ys) = delays xs @ delays ys"
  by (induction xs rule: delays.induct) simp_all

















lemma executed_append [simp]: "executed (xs @ ys) = executed xs @ executed ys"
  by (induction xs rule: executed.induct) simp_all













lemma work_fields [simp]:
  "work c (s\<lparr>rpc_calls := n\<rparr>) = work c s"
  "work c (s\<lparr>sem := k\<rparr>) = work c s"
  by (simp_all add: work_def)










lemma index_txs_append:
  "fst (index_txs d i h t before) = Returns None \<Longrightarrow>
   index_txs d i h t (before @ rest) =
     (fst (index_txs d i h t rest), snd (index_txs d i h t before) @ snd (index_txs d i h t rest))"
proof (induction before)
  case Nil
  then show ?case by simp
next
  case (Cons tx before)
  then show ?case
    by (auto split: if_splits sum.splits option.splits)
qed

lemma start_blocks_indexer [simp]:
  "start_blocks (env\<lparr>the_indexer := i\<rparr>) = start_blocks env"
  by (simp add: start_blocks_def cong: sum.case_cong if_cong)

lemma start_setup_indexer [simp]:
  "start_setup (env\<lparr>the_indexer := i\<rparr>) = start_setup env"
  by (simp add: start_setup_def cong: sum.case_cong option.case_cong if_cong)

lemma resolve_actions_fst:
  "fst (resolve_actions names) =
     map (\<lambda>name. NewIBCTransfer) (filter (\<lambda>name. name = BlockActionName) names)"
  by (induction names) (simp_all add: GetBlockActionByName_def)

lemma resolve_actions_snd:
  "snd (resolve_actions names) =
     map FailedToGetBlockAction (filter (\<lambda>name. name \<noteq> BlockActionName) names)"
  by (induction names) (simp_all add: GetBlockActionByName_def)

lemma startCmd_cases:
  "startCmd env =
     (case fst (start_setup env) of
        Inl err \<Rightarrow> (Inl err, snd (start_setup env))
      | Inr (n, blocks) \<Rightarrow>
          (if BlockActionName \<notin> set (Config_Actions env) then
             (Inl (Failure (''no block actions configured, check the actions section '' @
                            ''of your config'')),
              snd (start_setup env) @ snd (resolve_actions (Config_Actions env)))
           else
             (Inr (\<lparr>ix = the_indexer env, actions = fst (resolve_actions (Config_Actions env)),
                    concurrentBlocks = n\<rparr>, blocks),
              snd (start_setup env) @ snd (resolve_actions (Config_Actions env)))))"
proof -
  have "(fst (resolve_actions (Config_Actions env)) = []) = (BlockActionName \<notin> set (Config_Actions env))"
    by (auto simp: resolve_actions_fst filter_empty_conv)
  then show ?thesis
    by (cases "start_setup env") (auto simp: startCmd_def split: sum.splits prod.splits)
qed

lemma no_slot_inv_step:
  assumes "concurrentBlocks c = 0" and "no_slot_inv blocks s" and "step c a s = Some s'"
  shows "no_slot_inv blocks s'"
proof (cases a)
  case MainG
  with assms show ?thesis
    by (auto simp: step_def main_step_def no_slot_inv_def split: if_splits list.splits)
next
  case (TaskG i)
  with assms show ?thesis
    by (auto simp: step_def task_step_def no_slot_inv_def split: if_splits)
next
  case CancelCtx
  with assms show ?thesis
    by (auto simp: step_def no_slot_inv_def split: if_splits)
qed

lemma no_slot_inv_reach:
  assumes "concurrentBlocks c = 0" and "ForEachBlock c blocks sched = Some s"
  shows "no_slot_inv blocks s"
proof (rule run_invariant[where P = "no_slot_inv blocks" and c = c and sched = sched and s = "init blocks"])
  show "no_slot_inv blocks (init blocks)" by (simp add: no_slot_inv_def init_def)
next
  fix a s s'
  assume "no_slot_inv blocks s" and "step c a s = Some s'"
  with assms(1) show "no_slot_inv blocks s'" by (rule no_slot_inv_step)
next
  from assms(2) show "run c sched (init blocks) = Some s" by (simp add: ForEachBlock_def)
qed

lemma start_setup_concurrency:
  "fst (start_setup env) = Inr (n, blocks) \<Longrightarrow> flagConcurrentBlocks env = Inr n \<and> 1 \<le> n"
  by (auto simp: start_setup_def split: sum.splits if_splits option.splits)

lemma block_assigned_main:
  "list_all (\<lambda>t. block_assigned (t_pc t) (t_block t)) (tasks s) \<Longrightarrow> main_step c s = Some s' \<Longrightarrow>
   list_all (\<lambda>t. block_assigned (t_pc t) (t_block t)) (tasks s')"
  by (auto simp: main_step_def enter_def split: main_pc.splits list.splits if_splits option.splits)

lemma block_assigned_task:
  assumes inv: "list_all (\<lambda>t. block_assigned (t_pc t) (t_block t)) (tasks s)"
    and st: "task_step c i s = Some s'"
  shows "list_all (\<lambda>t. block_assigned (t_pc t) (t_block t)) (tasks s')"
  using st
proof (cases rule: task_step_cases)
  case (nilblock k)
  with inv show ?thesis by simp
next
  case (panicked k b)
  with inv show ?thesis by simp
next
  case (executed k b)
  with inv show ?thesis by (simp add: list_all_update)
next
  case (warned k b e)
  with inv show ?thesis by (simp add: list_all_update)
qed (use inv in \<open>simp_all add: list_all_update\<close>)

lemma acting_has_block:
  assumes "ForEachBlock c blocks sched = Some s" and "i < length (tasks s)"
    and "t_pc (tasks s ! i) = Acting k"
  shows "t_block (tasks s ! i) \<noteq> None"
proof -
  have "list_all (\<lambda>t. block_assigned (t_pc t) (t_block t)) (tasks s)"
  proof (rule run_invariant[where P = "\<lambda>s. list_all (\<lambda>t. block_assigned (t_pc t) (t_block t)) (tasks s)"
        and c = c and sched = sched and s = "init blocks"])
    show "list_all (\<lambda>t. block_assigned (t_pc t) (t_block t)) (tasks (init blocks))"
      by (simp add: init_def)
  next
    fix a s s'
    assume "list_all (\<lambda>t. block_assigned (t_pc t) (t_block t)) (tasks s)" and "step c a s = Some s'"
    then show "list_all (\<lambda>t. block_assigned (t_pc t) (t_block t)) (tasks s')"
      by (cases a) (auto simp: step_def split: if_splits intro: block_assigned_main block_assigned_task)
  next
    from assms(1) show "run c sched (init blocks) = Some s" by (simp add: ForEachBlock_def)
  qed
  from this assms(2) have "block_assigned (t_pc (tasks s ! i)) (t_block (tasks s ! i))"
    by (rule list_all_nthD)
  with assms(3) show ?thesis by (cases "t_block (tasks s ! i)") simp_all
qed




section \<open>The claims\<close>

text \<open>
  C1 (the append to the failure set takes the mutex once and releases it once, so that
  goroutines that append after their retries never deadlock). The source does not do
  this: line 91 defers \<^verbatim>\<open>mutex.Lock()\<close>, not \<^verbatim>\<open>mutex.Unlock()\<close>. In every reachable state, a
  goroutine that has appended its height stands at that deferred call, and from there
  on, whatever the other goroutines do, the mutex stays held, the goroutine stays where
  it is with no step to take, and every goroutine that comes to line 90 has no step to
  take either.
\<close>

theorem deferred_lock_blocks_forever:
  assumes "ForEachBlock c blocks sched = Some s"
    and "i < length (tasks s)" and "t_pc (tasks s ! i) = FailDeferred e"
    and "run c rest s = Some s'"
  shows "mutex s' \<and> t_pc (tasks s' ! i) = FailDeferred e \<and> step c (TaskG i) s' = None \<and>
         (\<forall>j e'. j < length (tasks s') \<and> t_pc (tasks s' ! j) = FailLock e' \<longrightarrow> step c (TaskG j) s' = None)"
proof -
  from assms(1) have "lock_inv s" by (rule lock_inv_reach)
  from deferred_stays_run[OF this assms(2,3,4)]
  have inv: "lock_inv s'" and len: "i < length (tasks s')" and at: "t_pc (tasks s' ! i) = FailDeferred e"
    by simp_all
  from inv len at have m: "mutex s'" by (auto intro: lock_inv_mutex)
  from m len at show ?thesis by (auto intro: locked_task_blocked)
qed

lemma two_down_run:
  "case ForEachBlock two_down [7, 8] two_down_sched of
     None \<Rightarrow> False
   | Some s \<Rightarrow>
       (case run two_down [MainG] s of
          None \<Rightarrow> False
        | Some s' \<Rightarrow>
            length (tasks s) = 2 \<and> t_pc (tasks s ! 0) = FailDeferred (Failure ''unreachable'') \<and>
            length (tasks s') = 2 \<and> t_pc (tasks s' ! 1) = FailLock (Failure ''unreachable'') \<and>
            failedBlocks s = [7] \<and> mpc s' = Waiting)"
  by code_simp

theorem deferred_lock_blocks_forever_witness:
  "\<exists>s s'. ForEachBlock two_down [7, 8] two_down_sched = Some s \<and>
     run two_down [MainG] s = Some s' \<and> failedBlocks s = [7] \<and> mutex s' \<and>
     t_pc (tasks s' ! 0) = FailDeferred (Failure ''unreachable'') \<and>
     step two_down (TaskG 0) s' = None \<and> step two_down (TaskG 1) s' = None"
proof -
  from two_down_run obtain s s' where
    r: "ForEachBlock two_down [7, 8] two_down_sched = Some s" and
    r': "run two_down [MainG] s = Some s'" and
    f: "length (tasks s) = 2" "t_pc (tasks s ! 0) = FailDeferred (Failure ''unreachable'')"
       "length (tasks s') = 2" "t_pc (tasks s' ! 1) = FailLock (Failure ''unreachable'')"
       "failedBlocks s = [7]"
    by (auto split: option.splits)
  from f have "0 < length (tasks s)" by simp
  from deferred_lock_blocks_forever[OF r this f(2) r'] f(3,4)
  have "mutex s' \<and> t_pc (tasks s' ! 0) = FailDeferred (Failure ''unreachable'') \<and>
        step two_down (TaskG 0) s' = None \<and> step two_down (TaskG 1) s' = None"
    by auto
  with r r' f(5) show ?thesis by blast
qed

text \<open>
  C2 (a height whose fetch fails on every attempt goes to the failure set, the call
  then runs again on the failure set, and this repeats until a pass leaves the set
  empty). The source does not get there: once a height is in the failure set, the call
  never enters the recursive call of line 122 and never returns, whatever the schedule,
  because the goroutine that appended stands for ever at the deferred call of line 91
  and \<^verbatim>\<open>eg.Wait()\<close> waits for it.
\<close>

theorem failed_height_never_retried:
  assumes "ForEachBlock c blocks sched = Some s" and "failedBlocks s \<noteq> []"
    and "run c rest s = Some s'"
  shows "depth s' = 0 \<and> failedBlocks s' \<noteq> [] \<and> (\<forall>r. mpc s' \<noteq> Returned r)"
proof -
  from assms(1) have inv: "lock_inv s" by (rule lock_inv_reach)
  from inv assms(2) obtain i e where i: "i < length (tasks s)" "t_pc (tasks s ! i) = FailDeferred e"
    by (rule lock_inv_deferred)
  from failed_stays_run[OF inv i assms(2,3)]
  have inv': "lock_inv s'" and ne: "failedBlocks s' \<noteq> []" by simp_all
  from inv' ne show ?thesis by (auto simp: lock_inv_def)
qed

lemma one_down_run:
  "case ForEachBlock one_down [7] one_down_sched of
     None \<Rightarrow> False
   | Some s \<Rightarrow>
       (case run one_down [MainG] s of
          None \<Rightarrow> False
        | Some s' \<Rightarrow> failedBlocks s = [7] \<and> mpc s' = Waiting \<and> failedBlocks s' = [7] \<and>
            step one_down MainG s' = None \<and> step one_down (TaskG 0) s' = None)"
  by code_simp

theorem failed_height_never_retried_witness:
  "\<exists>s s'. ForEachBlock one_down [7] one_down_sched = Some s \<and> failedBlocks s = [7] \<and>
     run one_down [MainG] s = Some s' \<and> depth s' = 0 \<and> mpc s' = Waiting \<and>
     failedBlocks s' = [7] \<and> step one_down MainG s' = None \<and> step one_down (TaskG 0) s' = None"
proof -
  from one_down_run obtain s s' where
    r: "ForEachBlock one_down [7] one_down_sched = Some s" and
    r': "run one_down [MainG] s = Some s'" and
    f: "failedBlocks s = [7]" "mpc s' = Waiting" "failedBlocks s' = [7]"
       "step one_down MainG s' = None" "step one_down (TaskG 0) s' = None"
    by (auto split: option.splits)
  from f(1) have "failedBlocks s \<noteq> []" by simp
  from failed_height_never_retried[OF r this r'] have "depth s' = 0" by simp
  with r r' f show ?thesis by blast
qed

text \<open>
  C3 (before any block is processed, \<^verbatim>\<open>MigrateSchema\<close> is called once for every registered
  action, and a failure of it keeps the run from starting). The source never calls
  \<^verbatim>\<open>MigrateSchema\<close>: when the command gets as far as calling \<^verbatim>\<open>ForEachBlock\<close>, it does so with
  the same heights and the same actions whatever \<^verbatim>\<open>MigrateSchema\<close> would return (\<open>r\<close> below,
  an error included), for every action.
\<close>

theorem run_starts_without_schema:
  assumes "fst (startCmd env) = Inr (c, blocks)"
  shows "fst (startCmd (env\<lparr>the_indexer := (the_indexer env)\<lparr>DB_AutoMigrate := r\<rparr>\<rparr>)) =
           Inr (c\<lparr>ix := (ix c)\<lparr>DB_AutoMigrate := r\<rparr>\<rparr>, blocks) \<and>
         actions c \<noteq> [] \<and>
         list_all (\<lambda>a. MigrateSchema a ((ix c)\<lparr>DB_AutoMigrate := r\<rparr>) = r) (actions c)"
proof -
  from assms obtain n where
    s: "fst (start_setup env) = Inr (n, blocks)" and
    m: "BlockActionName \<in> set (Config_Actions env)" and
    c: "c = \<lparr>ix = the_indexer env, actions = fst (resolve_actions (Config_Actions env)),
             concurrentBlocks = n\<rparr>"
    by (auto simp: startCmd_cases split: sum.splits if_splits)
  from s m c have "fst (startCmd (env\<lparr>the_indexer := (the_indexer env)\<lparr>DB_AutoMigrate := r\<rparr>\<rparr>)) =
           Inr (c\<lparr>ix := (ix c)\<lparr>DB_AutoMigrate := r\<rparr>\<rparr>, blocks)"
    by (simp add: startCmd_cases)
  moreover from m c have "actions c \<noteq> []"
    by (auto simp: resolve_actions_fst filter_empty_conv)
  moreover from c have "list_all (\<lambda>a. MigrateSchema a ((ix c)\<lparr>DB_AutoMigrate := r\<rparr>) = r) (actions c)"
    by (simp add: resolve_actions_fst list_all_iff NewIBCTransfer_def)
  ultimately show ?thesis by simp
qed

lemma ics20_run:
  "case ForEachBlock \<lparr>ix = node_up\<lparr>DB_AutoMigrate := Some (Failure ''permission denied'')\<rparr>,
                      actions = [NewIBCTransfer], concurrentBlocks = 1\<rparr> [1, 2] ics20_sched of
     None \<Rightarrow> False
   | Some s \<Rightarrow> mpc s = Returned None \<and>
       map fst (executed (t_log (tasks s ! 0))) = [''ics20_transfers''] \<and>
       map fst (executed (t_log (tasks s ! 1))) = [''ics20_transfers'']"
  by code_simp

theorem run_starts_without_schema_witness:
  "fst (startCmd (start_with (node_up\<lparr>DB_AutoMigrate := Some (Failure ''permission denied'')\<rparr>) 1
                    [''ics20_transfers''])) =
     Inr (\<lparr>ix = node_up\<lparr>DB_AutoMigrate := Some (Failure ''permission denied'')\<rparr>,
           actions = [NewIBCTransfer], concurrentBlocks = 1\<rparr>, [1, 2]) \<and>
   MigrateSchema NewIBCTransfer (node_up\<lparr>DB_AutoMigrate := Some (Failure ''permission denied'')\<rparr>) =
     Some (Failure ''permission denied'') \<and>
   (\<exists>s. ForEachBlock \<lparr>ix = node_up\<lparr>DB_AutoMigrate := Some (Failure ''permission denied'')\<rparr>,
                       actions = [NewIBCTransfer], concurrentBlocks = 1\<rparr> [1, 2] ics20_sched = Some s \<and>
        mpc s = Returned None \<and>
        map fst (executed (t_log (tasks s ! 0))) = [''ics20_transfers''] \<and>
        map fst (executed (t_log (tasks s ! 1))) = [''ics20_transfers''])"
proof -
  have e: "fst (startCmd (start_with node_up 1 [''ics20_transfers''])) =
      Inr (\<lparr>ix = node_up, actions = [NewIBCTransfer], concurrentBlocks = 1\<rparr>, [1, 2])"
    by (simp add: startCmd_def start_setup_def start_blocks_def start_with_def
        GetBlockActionByName_def BlockActionName_def upto.simps)
  from run_starts_without_schema[OF e, of "Some (Failure ''permission denied'')"]
  have "fst (startCmd (start_with (node_up\<lparr>DB_AutoMigrate := Some (Failure ''permission denied'')\<rparr>) 1
                    [''ics20_transfers''])) =
     Inr (\<lparr>ix = node_up\<lparr>DB_AutoMigrate := Some (Failure ''permission denied'')\<rparr>,
           actions = [NewIBCTransfer], concurrentBlocks = 1\<rparr>, [1, 2]) \<and>
   MigrateSchema NewIBCTransfer (node_up\<lparr>DB_AutoMigrate := Some (Failure ''permission denied'')\<rparr>) =
     Some (Failure ''permission denied'')"
    by (simp add: start_with_def)
  moreover from ics20_run
  have "\<exists>s. ForEachBlock \<lparr>ix = node_up\<lparr>DB_AutoMigrate := Some (Failure ''permission denied'')\<rparr>,
                       actions = [NewIBCTransfer], concurrentBlocks = 1\<rparr> [1, 2] ics20_sched = Some s \<and>
        mpc s = Returned None \<and>
        map fst (executed (t_log (tasks s ! 0))) = [''ics20_transfers''] \<and>
        map fst (executed (t_log (tasks s ! 1))) = [''ics20_transfers'']"
    by (auto split: option.splits)
  ultimately show ?thesis by simp
qed

text \<open>
  C4 (never more than \<^verbatim>\<open>concurrentBlocks\<close> goroutines in flight, and every goroutine gives
  its slot back when it is done, whether its fetch succeeded or failed). The bound holds
  (lemma \<open>in_flight_bounded\<close>). The slot of a failed fetch is not given back: the receive
  of line 95 comes after the deferred call of line 91, which never returns. Once
  \<^verbatim>\<open>retry.Do\<close> has returned an error to a goroutine, whatever the schedule does from there,
  that goroutine still holds its slot, the channel is never empty again, and the call
  does not return.
\<close>

theorem failed_fetch_keeps_slot:
  assumes "ForEachBlock c blocks sched = Some s"
    and "i < length (tasks s)" and "failing (t_pc (tasks s ! i))"
    and "run c rest s = Some s'"
  shows "holds_slot (t_pc (tasks s' ! i)) \<and> 0 < sem s' \<and> in_flight s' \<le> concurrentBlocks c \<and>
         (\<forall>r. mpc s' \<noteq> Returned r)"
proof -
  from assms(1) have inv: "lock_inv s" by (rule lock_inv_reach)
  from failing_stays_run[OF inv assms(2,3,4)]
  have inv': "lock_inv s'" and len: "i < length (tasks s')" and f: "failing (t_pc (tasks s' ! i))"
    by simp_all
  from inv' len have "\<not> past_deferred (t_pc (tasks s' ! i))"
    by (auto simp: lock_inv_def dest: list_all_nthD)
  with f have h: "holds_slot (t_pc (tasks s' ! i))" by (rule failing_holds_slot)
  from assms(1,4) have "ForEachBlock c blocks (sched @ rest) = Some s'"
    by (simp add: ForEachBlock_def run_append)
  then have b: "sem s' = in_flight s' \<and> in_flight s' \<le> concurrentBlocks c"
    by (rule in_flight_bounded)
  from len h have "0 < in_flight s'" by (rule in_flight_pos)
  moreover from f have "\<not> exited (tasks s' ! i)" by (auto simp: exited_iff)
  with len have "\<not> list_all exited (tasks s')" by (auto dest: list_all_nthD)
  with inv' have "\<forall>r. mpc s' \<noteq> Returned r" by (auto simp: lock_inv_def)
  ultimately show ?thesis using h b by simp
qed

lemma one_down_slot_run:
  "case ForEachBlock one_down [1, 2] ([MainG] @ retries 0) of
     None \<Rightarrow> False
   | Some s \<Rightarrow>
       (case run one_down [TaskG 0, TaskG 0] s of
          None \<Rightarrow> False
        | Some s' \<Rightarrow> length (tasks s) = 1 \<and> t_pc (tasks s ! 0) = FailLock (Failure ''unreachable'') \<and>
            mpc s' = Launch [2] \<and> sem s' = 1 \<and>
            step one_down MainG s' = None \<and> step one_down (TaskG 0) s' = None)"
  by code_simp

theorem failed_fetch_keeps_slot_witness:
  "\<exists>s s'. ForEachBlock one_down [1, 2] ([MainG] @ retries 0) = Some s \<and>
     t_pc (tasks s ! 0) = FailLock (Failure ''unreachable'') \<and>
     run one_down [TaskG 0, TaskG 0] s = Some s' \<and>
     holds_slot (t_pc (tasks s' ! 0)) \<and> sem s' = 1 \<and> mpc s' = Launch [2] \<and>
     step one_down MainG s' = None \<and> step one_down (TaskG 0) s' = None"
proof -
  from one_down_slot_run obtain s s' where
    r: "ForEachBlock one_down [1, 2] ([MainG] @ retries 0) = Some s" and
    r': "run one_down [TaskG 0, TaskG 0] s = Some s'" and
    f: "length (tasks s) = 1" "t_pc (tasks s ! 0) = FailLock (Failure ''unreachable'')"
       "mpc s' = Launch [2]" "sem s' = 1"
       "step one_down MainG s' = None" "step one_down (TaskG 0) s' = None"
    by (auto split: option.splits)
  from f have l: "0 < length (tasks s)" and g: "failing (t_pc (tasks s ! 0))" by simp_all
  from failed_fetch_keeps_slot[OF r l g r'] have "holds_slot (t_pc (tasks s' ! 0))" by simp
  with r r' f show ?thesis by blast
qed




text \<open>
  The hypothesis on the context is needed: when the context is cancelled during the
  wait after the first attempt, \<^verbatim>\<open>retry.Do\<close> returns the context's error at once and the
  height goes to the failure set after a single call of the node.
\<close>

lemma cancelled_wait_ends_retries:
  "case ForEachBlock one_down [7] [MainG, TaskG 0, CancelCtx, TaskG 0, TaskG 0, TaskG 0] of
     None \<Rightarrow> False
   | Some s \<Rightarrow> t_pc (tasks s ! 0) = FailDeferred Canceled \<and> failedBlocks s = [7] \<and>
       rpc_calls s = 1 \<and> ctx_cancelled s"
  by code_simp







text \<open>
  C8 (a configured action name that does not resolve is a configuration error, fatal
  before any run and surfaced at once, not merely logged and skipped). As stated the
  claim fails: with the names \<open>bogus\<close> and \<open>ics20_transfers\<close> configured,
  \<^verbatim>\<open>GetBlockActionByName\<close> returns an error for \<open>bogus\<close>, the command logs it, skips the name
  and calls \<^verbatim>\<open>ForEachBlock\<close> with the one action that resolved.
\<close>

theorem unknown_action_name_counterexample:
  "GetBlockActionByName ''bogus'' =
     Inl (Failure ''there is no block action configured with the name bogus'') \<and>
   startCmd (start_with node_up 1 [''bogus'', ''ics20_transfers'']) =
     (Inr (\<lparr>ix = node_up, actions = [NewIBCTransfer], concurrentBlocks = 1\<rparr>, [1, 2]),
      [SkippingDebugServer, FailedToGetBlockAction ''bogus''])"
  by (simp add: startCmd_def start_setup_def start_blocks_def start_with_def
      GetBlockActionByName_def BlockActionName_def upto.simps)

text \<open>
  C8 as amended: every name other than \<^verbatim>\<open>ibc.BlockActionName\<close> makes \<^verbatim>\<open>GetBlockActionByName\<close>
  return an error; the command logs one line for each such name and goes on; once the
  set-up of lines 30-112 has passed, it returns the error \<open>no block actions configured\<close>
  without calling \<^verbatim>\<open>ForEachBlock\<close> exactly when no configured name resolves, and otherwise
  calls \<^verbatim>\<open>ForEachBlock\<close> with the actions of the names that resolve, in their order.
\<close>

theorem unknown_action_names_skipped:
  assumes "fst (start_setup env) = Inr (n, blocks)"
  shows "(\<forall>name. name \<noteq> BlockActionName \<longrightarrow>
            GetBlockActionByName name =
              Inl (Failure (''there is no block action configured with the name '' @ name))) \<and>
         snd (startCmd env) =
           snd (start_setup env) @
           map FailedToGetBlockAction (filter (\<lambda>name. name \<noteq> BlockActionName) (Config_Actions env)) \<and>
         (BlockActionName \<notin> set (Config_Actions env) \<longrightarrow>
            fst (startCmd env) =
              Inl (Failure ''no block actions configured, check the actions section of your config'')) \<and>
         (BlockActionName \<in> set (Config_Actions env) \<longrightarrow>
            fst (startCmd env) =
              Inr (\<lparr>ix = the_indexer env,
                    actions = map (\<lambda>name. NewIBCTransfer)
                                (filter (\<lambda>name. name = BlockActionName) (Config_Actions env)),
                    concurrentBlocks = n\<rparr>, blocks))"
  using assms
  by (simp add: startCmd_cases resolve_actions_fst resolve_actions_snd GetBlockActionByName_def)

theorem unknown_action_names_skipped_witness:
  "fst (start_setup (start_with node_up 1 [''bogus'', ''ics20_transfers''])) = Inr (1, [1, 2]) \<and>
   snd (startCmd (start_with node_up 1 [''bogus'', ''ics20_transfers''])) =
     [SkippingDebugServer, FailedToGetBlockAction ''bogus''] \<and>
   fst (startCmd (start_with node_up 1 [''bogus'', ''ics20_transfers''])) =
     Inr (\<lparr>ix = node_up, actions = [NewIBCTransfer], concurrentBlocks = 1\<rparr>, [1, 2]) \<and>
   fst (start_setup (start_with node_up 1 [''bogus''])) = Inr (1, [1, 2]) \<and>
   fst (startCmd (start_with node_up 1 [''bogus''])) =
     Inl (Failure ''no block actions configured, check the actions section of your config'')"
proof -
  have a: "fst (start_setup (start_with node_up 1 [''bogus'', ''ics20_transfers''])) = Inr (1, [1, 2])"
    and l: "snd (start_setup (start_with node_up 1 [''bogus'', ''ics20_transfers''])) = [SkippingDebugServer]"
    by (simp_all add: start_setup_def start_blocks_def start_with_def upto.simps)
  have b: "fst (start_setup (start_with node_up 1 [''bogus''])) = Inr (1, [1, 2])"
    by (simp add: start_setup_def start_blocks_def start_with_def upto.simps)
  from unknown_action_names_skipped[OF a] l
  have "snd (startCmd (start_with node_up 1 [''bogus'', ''ics20_transfers''])) =
     [SkippingDebugServer, FailedToGetBlockAction ''bogus''] \<and>
   fst (startCmd (start_with node_up 1 [''bogus'', ''ics20_transfers''])) =
     Inr (\<lparr>ix = node_up, actions = [NewIBCTransfer], concurrentBlocks = 1\<rparr>, [1, 2])"
    by (simp add: start_with_def BlockActionName_def)
  moreover from unknown_action_names_skipped[OF b]
  have "fst (startCmd (start_with node_up 1 [''bogus''])) =
     Inl (Failure ''no block actions configured, check the actions section of your config'')"
    by (simp add: start_with_def BlockActionName_def)
  ultimately show ?thesis using a b by simp
qed

text \<open>
  C9 (\<^verbatim>\<open>ForEachBlock\<close> checks that the concurrency is at least 1 and fails fast with an
  error otherwise; a call with concurrency 0 returns an error rather than hanging or
  proceeding). As stated the claim fails: \<^verbatim>\<open>ForEachBlock\<close> has no such check. Called with
  concurrency 0 and no height it returns \<^verbatim>\<open>nil\<close>; called with concurrency 0 and the height
  1, its first step, the send of line 70, cannot be taken, and no other goroutine
  exists.
\<close>

theorem zero_concurrency_counterexample:
  "map_option mpc (ForEachBlock no_slot [] [MainG, MainG]) = Some (Returned None) \<and>
   ForEachBlock no_slot [1] [MainG] = None \<and> ForEachBlock no_slot [1] [TaskG 0] = None"
  by code_simp

text \<open>
  C9 as amended: the check is made by the start command, the caller of \<^verbatim>\<open>ForEachBlock\<close>. A
  concurrency flag below 1 makes the command return an error at once (line 37), before
  anything is set up, and every call of \<^verbatim>\<open>ForEachBlock\<close> that the command makes has a
  concurrency of at least 1. \<^verbatim>\<open>ForEachBlock\<close> itself does not check: called with
  concurrency 0 it starts no goroutine and never calls the node; with at least one
  height it stays at the first send, and with none it reaches no error.
\<close>

theorem concurrency_checked_by_start:
  "(\<forall>n. flagConcurrentBlocks env = Inr n \<and> n < 1 \<longrightarrow>
      startCmd env =
        (Inl (Failure (''invalid flag value 0, value of --concurrent-blocks must be '' @
                       ''greater than or equal to 1'')), [])) \<and>
   (\<forall>c' blocks'. fst (startCmd env) = Inr (c', blocks') \<longrightarrow> 1 \<le> concurrentBlocks c') \<and>
   (concurrentBlocks c = 0 \<and> ForEachBlock c blocks sched = Some s \<longrightarrow>
      tasks s = [] \<and> rpc_calls s = 0 \<and>
      (blocks \<noteq> [] \<longrightarrow> mpc s = Launch blocks) \<and>
      (\<forall>r. mpc s = Returned r \<longrightarrow> r = None))"
proof -
  have "\<forall>n. flagConcurrentBlocks env = Inr n \<and> n < 1 \<longrightarrow>
      startCmd env =
        (Inl (Failure (''invalid flag value 0, value of --concurrent-blocks must be '' @
                       ''greater than or equal to 1'')), [])"
    by (simp add: startCmd_def start_setup_def)
  moreover have "\<forall>c' blocks'. fst (startCmd env) = Inr (c', blocks') \<longrightarrow> 1 \<le> concurrentBlocks c'"
    by (auto simp: startCmd_cases split: sum.splits if_splits dest: start_setup_concurrency)
  moreover have "concurrentBlocks c = 0 \<and> ForEachBlock c blocks sched = Some s \<longrightarrow>
      tasks s = [] \<and> rpc_calls s = 0 \<and>
      (blocks \<noteq> [] \<longrightarrow> mpc s = Launch blocks) \<and>
      (\<forall>r. mpc s = Returned r \<longrightarrow> r = None)"
    using no_slot_inv_reach[of c blocks sched s] by (auto simp: no_slot_inv_def)
  ultimately show ?thesis by blast
qed

lemma no_slot_run:
  "case ForEachBlock no_slot [] [MainG, MainG] of
     None \<Rightarrow> False
   | Some s \<Rightarrow> mpc s = Returned None \<and> tasks s = [] \<and> rpc_calls s = 0"
  by code_simp

theorem concurrency_checked_by_start_witness:
  "startCmd (start_with node_up 0 [''ics20_transfers'']) =
     (Inl (Failure ''invalid flag value 0, value of --concurrent-blocks must be greater than or equal to 1''), []) \<and>
   fst (startCmd (start_with node_up 1 [''ics20_transfers''])) =
     Inr (\<lparr>ix = node_up, actions = [NewIBCTransfer], concurrentBlocks = 1\<rparr>, [1, 2]) \<and>
   (\<exists>s. ForEachBlock no_slot [] [MainG, MainG] = Some s \<and> mpc s = Returned None \<and>
        tasks s = [] \<and> rpc_calls s = 0)"
proof -
  from no_slot_run obtain s where
    r: "ForEachBlock no_slot [] [MainG, MainG] = Some s" and f: "mpc s = Returned None"
    by (auto split: option.splits)
  have z: "concurrentBlocks no_slot = 0" by (simp add: no_slot_def)
  have "flagConcurrentBlocks (start_with node_up 0 [''ics20_transfers'']) = Inr 0 \<and> (0::nat) < 1"
    by (simp add: start_with_def)
  with concurrency_checked_by_start[of "start_with node_up 0 [''ics20_transfers'']" no_slot "[]" "[MainG, MainG]" s] r z
  have one: "startCmd (start_with node_up 0 [''ics20_transfers'']) =
     (Inl (Failure ''invalid flag value 0, value of --concurrent-blocks must be greater than or equal to 1''), [])"
    and three: "tasks s = [] \<and> rpc_calls s = 0"
    by simp_all
  have two: "fst (startCmd (start_with node_up 1 [''ics20_transfers''])) =
     Inr (\<lparr>ix = node_up, actions = [NewIBCTransfer], concurrentBlocks = 1\<rparr>, [1, 2])"
    by (simp add: startCmd_def start_setup_def start_blocks_def start_with_def
        GetBlockActionByName_def BlockActionName_def upto.simps)
  from one two three r f show ?thesis by simp
qed

text \<open>
  C10 (the IBC action casts a decoded and queried transaction to the fee interface
  with an unchecked type assertion, and \<^verbatim>\<open>Execute\<close> panics when the transaction does not
  implement it). When the context is not done, the loop has gone through the
  transactions before \<open>tx\<close>, and \<open>tx\<close> decodes and its result is found, but its type has no
  fee interface, then \<^verbatim>\<open>Execute\<close> of the action panics: it neither skips \<open>tx\<close> nor returns an
  error, and the transactions after \<open>tx\<close> are not visited.
\<close>

theorem unchecked_fee_assertion_panics:
  assumes "\<not> d" and "Txs b = before @ tx # rest"
    and "fst (index_txs d i (Height b) (Time b) before) = Returns None"
    and "TxDecoder i tx = Inr sdkTx" and "QueryTx i tx = Inr txRes" and "FeeTx sdkTx = None"
  shows "Execute NewIBCTransfer d i b = Panics \<and>
         snd (IndexIBCTransfers d i b) = snd (index_txs d i (Height b) (Time b) before)"
proof -
  from assms(1,4,5,6) have "index_txs d i (Height b) (Time b) (tx # rest) = (Panics, [])"
    by simp
  with index_txs_append[OF assms(3), of "tx # rest"] assms(2)
  show ?thesis by (simp add: NewIBCTransfer_def IndexIBCTransfers_def)
qed

theorem unchecked_fee_assertion_panics_witness:
  "Execute NewIBCTransfer False no_fee_node \<lparr>Height = 9, Time = 0, Txs = [''tx'']\<rparr> = Panics \<and>
   snd (IndexIBCTransfers False no_fee_node \<lparr>Height = 9, Time = 0, Txs = [''tx'']\<rparr>) = []"
  using unchecked_fee_assertion_panics[of False "\<lparr>Height = 9, Time = 0, Txs = [''tx'']\<rparr>" "[]" "''tx''" "[]"
      no_fee_node "\<lparr>GetMsgs = [], FeeTx = None\<rparr>" "\<lparr>Code = 0, Log = ''[]'', GasUsed = 1, GasWanted = 2\<rparr>"]
  by (simp add: no_fee_node_def)

end
